theory Spec2Isabelle
  imports Complex_Main "HOL-Library.Sublist"
begin

section \<open>Data model\<close>

text \<open>
  The research agent threads one state dictionary (\<open>AgentState\<close>, models/state.py) through
  the nodes of a workflow graph. Python exceptions are values: an exception carries the message
  that \<open>str(e)\<close> returns.
\<close>

datatype error = Exception string

fun str_of :: "error \<Rightarrow> string" where
  "str_of (Exception msg) = msg"

text \<open>
  \<open>ReflectionOutput.model_dump()\<close>: a dictionary that the code reads with
  \<open>.get(key, default)\<close>; \<open>None\<close> is an absent key.
\<close>

record reflection =
  analysis_summary :: "string option"
  r_should_continue :: "bool option"
  reasoning :: "string option"
  query_strategy :: "string option"

text \<open>Python's \<open>Any\<close>, for the metadata of an entity and the attributes of a graph element.\<close>

datatype any =
    AnyNone
  | AnyBool bool
  | AnyInt int
  | AnyStr string
  | AnyList "any list"
  | AnyDict "(string \<times> any) list"

text \<open>\<open>discovered_entities: Dict[str, Any]\<close>, keys in insertion order.\<close>

type_synonym entities = "(string \<times> any) list"

text \<open>models/search\_result.py\<close>

record web_search_source =
  url :: string
  title :: string

record web_search_output =
  query :: string
  search_result :: string
  sources :: "web_search_source list"

record graph_node =
  node_id :: string
  node_name :: string
  node_type :: string
  node_attributes :: "(string \<times> any) list"

record graph_edge =
  source :: string
  target :: string
  relationship :: string
  confidence :: real
  edge_attributes :: "(string \<times> any) list"

record key_entity =
  entity :: string
  importance_score :: real
  reason :: string

record connection_mapping_output =
  new_nodes :: "graph_node list"
  new_edges :: "graph_edge list"
  patterns_identified :: "string list"
  suspicious_patterns :: "string list"
  key_entities_found :: "key_entity list"

text \<open>
  The graph dictionary \<open>{"nodes": [...], "edges": [...]}\<close>; \<open>None\<close> is an absent key, so
  the empty dictionary has neither.
\<close>

record entity_graph =
  nodes :: "graph_node list option"
  edges :: "graph_edge list option"

text \<open>utils/research\_utils.py: the output schemas of the two merging agents.\<close>

record entity_merge_output =
  merged_entities :: entities
  entities_extracted :: "string list"

record graph_merge_output =
  merged_graph :: entity_graph
  nodes_added :: int
  edges_added :: int
  nodes_merged :: int

text \<open>models/state.py; an entry of \<open>search_memory\<close> is the dictionary the search node appends.\<close>

record search_memory_entry =
  sm_query :: string
  sm_search_result :: string
  sources_count :: int
  depth :: int

text \<open>\<open>goal\<close> holds the depth that the goal text names; \<open>sources\<close> is set on success only.\<close>

record search_iteration_data =
  goal :: int
  queries :: "string list"
  model_used :: "string option"
  new_entities :: "string list"
  sources_found :: int
  iteration_sources :: "web_search_source list option"
  errors :: "string list"

record risk_indicators =
  red_flags :: "string list"
  neutral :: "string list"
  positive :: "string list"

text \<open>
  What \<open>synthesize_report\<close> stores: the model's report (its prose is opaque here) and the
  metadata block.
\<close>

record final_report =
  report_body :: string
  research_depth :: int
  total_queries :: int
  total_sources :: int
  report_termination_reason :: "string option"
  report_entity_graph :: entity_graph

text \<open>
  \<open>AgentState\<close> after \<open>initialize_session\<close>, which sets every key. The keys
  \<open>max_concurrent_searches\<close>, \<open>key_entities\<close> and \<open>final_report\<close> are read with a default or
  written later, so they are optional. The clock fields (\<open>start_time\<close>) and the message history
  are left out: no stage below reads them.
\<close>

record agent_state =
  session_id :: string
  subject :: string
  subject_context :: "string option"
  current_depth :: int
  max_depth :: int
  queries_executed :: "string list"
  pending_queries :: "string list"
  should_continue :: bool
  termination_reason :: "string option"
  search_count :: int
  extraction_count :: int
  error_count :: int
  iteration_count :: int
  search_iterations :: "search_iteration_data list"
  search_memory :: "search_memory_entry list"
  reflection_memory :: "reflection list"
  discovered_entities :: entities
  entity_graph :: entity_graph
  risk :: risk_indicators
  max_concurrent_searches :: "int option"
  key_entities :: "key_entity list option"
  report :: "final_report option"

text \<open>config/settings.py: the workflow settings the stages read.\<close>

record settings =
  max_search_depth :: int
  max_queries_per_depth :: int
  stagnation_check_iterations :: int
  openai_max_retries :: int
  web_search_model :: "string option"

text \<open>
  A stage returns a value, raises, or never returns (an awaited operation that is never
  resumed).
\<close>

datatype 'a outcome = Returns 'a | Raises error | Hangs

section \<open>Stagnation detection (utils/research\_utils.py)\<close>

text \<open>
  Strings are lists of 8-bit characters. \<open>str.lower()\<close> is modelled on the ASCII letters,
  the only letters of the stagnation phrases.
\<close>

definition lower_char :: "char \<Rightarrow> char" where
  "lower_char c =
     (if (65::nat) \<le> of_char c \<and> of_char c \<le> (90::nat)
      then char_of (of_char c + (32::nat)) else c)"

definition lower :: "string \<Rightarrow> string" where
  "lower s = map lower_char s"

text \<open>\<open>needle in haystack\<close> on strings: the needle occurs as a contiguous piece.\<close>

fun str_in :: "string \<Rightarrow> string \<Rightarrow> bool" where
  "str_in needle [] = (needle = [])"
| "str_in needle (c # cs) = (prefix needle (c # cs) \<or> str_in needle cs)"

definition stagnation_indicators :: "string list" where
  "stagnation_indicators =
     [''no new entities'',
      ''no significant findings'',
      ''limited new information'',
      ''no new information'',
      ''entities discovered: none'',
      ''entities discovered:'' @ [CHR 0x0A] @ ''none'',
      ''nothing new discovered'']"

text \<open>The lower-cased \<open>reflection.get("analysis_summary", "")\<close>.\<close>

definition analysis_text :: "reflection \<Rightarrow> string" where
  "analysis_text r = lower (case analysis_summary r of None \<Rightarrow> [] | Some a \<Rightarrow> a)"

text \<open>The body of the loop over the recent reflections: \<open>has_indicator or is_too_short\<close>.\<close>

definition is_stagnant :: "reflection \<Rightarrow> bool" where
  "is_stagnant r =
     (let analysis = analysis_text r;
          has_indicator = list_ex (\<lambda>indicator. str_in indicator analysis) stagnation_indicators;
          is_too_short = (length analysis < 200)
      in has_indicator \<or> is_too_short)"

fun count_stagnant :: "reflection list \<Rightarrow> int \<Rightarrow> int" where
  "count_stagnant [] stagnant_count = stagnant_count"
| "count_stagnant (r # rs) stagnant_count =
     count_stagnant rs (if is_stagnant r then stagnant_count + 1 else stagnant_count)"

text \<open>
  \<open>xs[-n:]\<close> for a positive \<open>n\<close>: the last \<open>n\<close> elements, the whole list when it is
  shorter.
\<close>

definition last_n :: "int \<Rightarrow> 'a list \<Rightarrow> 'a list" where
  "last_n n xs = drop (length xs - nat n) xs"

text \<open>
  \<open>check_stagnation(reflection_memory, n_iterations)\<close>; the first argument is
  \<open>settings.stagnation_check_iterations\<close>, the default of an absent \<open>n_iterations\<close>.
\<close>

definition check_stagnation :: "int \<Rightarrow> reflection list \<Rightarrow> int option \<Rightarrow> bool" where
  "check_stagnation settings_n memory n_iterations =
     (let n = (case n_iterations of None \<Rightarrow> settings_n | Some k \<Rightarrow> k) in
      if memory = [] \<or> n \<le> 0 then False
      else if int (length memory) < n then False
      else let recent_reflections = last_n n memory
           in n \<le> count_stagnant recent_reflections 0)"

section \<open>Routing (agents/edges/routing.py)\<close>

datatype route = continue_search | finalize

text \<open>
  \<open>should_continue_research\<close> returns the name of the next edge and assigns
  \<open>state["termination_reason"]\<close> on the way: the state it leaves is returned with the route.
\<close>

definition should_continue_research :: "settings \<Rightarrow> agent_state \<Rightarrow> route \<times> agent_state" where
  "should_continue_research cfg state =
     (if max_depth state \<le> current_depth state
      then (finalize, state\<lparr>termination_reason := Some ''max_depth_reached''\<rparr>)
      else if reflection_memory state \<noteq> []
              \<and> \<not> (case r_should_continue (last (reflection_memory state)) of
                      None \<Rightarrow> True | Some b \<Rightarrow> b)
      then (finalize, state\<lparr>termination_reason := Some ''reflection_recommended_stop''\<rparr>)
      else if check_stagnation (stagnation_check_iterations cfg) (reflection_memory state)
                (Some (stagnation_check_iterations cfg))
      then (finalize, state\<lparr>termination_reason := Some ''stagnation_detected''\<rparr>)
      else (continue_search, state))"

datatype query_route = search_more | synthesize

definition has_new_queries :: "agent_state \<Rightarrow> query_route \<times> agent_state" where
  "has_new_queries state =
     (if pending_queries state \<noteq> [] then (search_more, state)
      else (synthesize, state\<lparr>termination_reason := Some ''no_additional_queries''\<rparr>))"

section \<open>Retries and the two merges (utils/research\_utils.py)\<close>

text \<open>
  \<open>retry_agent_execution\<close>: \<open>agent_func k\<close> is the outcome of attempt number \<open>k\<close>. The
  first success is returned; when every attempt failed the last exception is raised. The sleeps
  between attempts are not modelled. With no attempt at all (\<open>max_retries \<le> 0\<close>) the code
  reaches \<open>raise last_exception\<close> with \<open>None\<close>, which Python turns into a \<open>TypeError\<close>.
\<close>

fun retry_loop :: "(nat \<Rightarrow> error + 'a) \<Rightarrow> nat \<Rightarrow> nat \<Rightarrow> error option \<Rightarrow> error + 'a" where
  "retry_loop agent_func 0 attempt last_exception =
     (case last_exception of
        None \<Rightarrow> Inl (Exception ''exceptions must derive from BaseException'')
      | Some e \<Rightarrow> Inl e)"
| "retry_loop agent_func (Suc remaining) attempt last_exception =
     (case agent_func attempt of
        Inr result \<Rightarrow> Inr result
      | Inl e \<Rightarrow> retry_loop agent_func remaining (Suc attempt) (Some e))"

definition retry_agent_execution :: "(nat \<Rightarrow> error + 'a) \<Rightarrow> int \<Rightarrow> error + 'a" where
  "retry_agent_execution agent_func max_retries =
     retry_loop agent_func (nat max_retries) 0 None"

text \<open>
  \<open>merge_entities_with_llm\<close>. The merging agent is a collaborator: \<open>merger k existing text\<close>
  is what attempt \<open>k\<close> of \<open>Runner.run\<close> yields for the prompt built from the existing
  entities and the analysis text.
\<close>

definition merge_entities_with_llm ::
  "settings \<Rightarrow> (nat \<Rightarrow> entities \<Rightarrow> string \<Rightarrow> error + entity_merge_output)
     \<Rightarrow> entities \<Rightarrow> string \<Rightarrow> error + entities" where
  "merge_entities_with_llm cfg merger existing_entities summary =
     (if summary = [] then Inr existing_entities
      else
        case retry_agent_execution (\<lambda>attempt. merger attempt existing_entities summary)
               (openai_max_retries cfg) of
          Inl e \<Rightarrow> Inl e
        | Inr output \<Rightarrow>
            Inr (if merged_entities output \<noteq> [] then merged_entities output
                 else existing_entities))"

text \<open>A dictionary is falsy when it has no key.\<close>

definition empty_graph_dict :: "entity_graph \<Rightarrow> bool" where
  "empty_graph_dict g = (nodes g = None \<and> edges g = None)"

text \<open>
  \<open>merge_graph_with_llm\<close>. Only \<open>merged_graph\<close> of the agent's output is returned; the
  counts \<open>nodes_added\<close>, \<open>edges_added\<close> and \<open>nodes_merged\<close> are dropped.
\<close>

definition merge_graph_with_llm ::
  "settings
     \<Rightarrow> (nat \<Rightarrow> entity_graph \<Rightarrow> graph_node list \<Rightarrow> graph_edge list \<Rightarrow> error + graph_merge_output)
     \<Rightarrow> entity_graph \<Rightarrow> graph_node list \<Rightarrow> graph_edge list \<Rightarrow> error + entity_graph" where
  "merge_graph_with_llm cfg merger existing_graph nodes_in edges_in =
     (let g0 = (if empty_graph_dict existing_graph then \<lparr>nodes = Some [], edges = Some []\<rparr>
                else existing_graph)
      in
        if nodes_in = [] \<and> edges_in = [] then Inr g0
        else
          let g1 = (case nodes g0 of None \<Rightarrow> g0\<lparr>nodes := Some []\<rparr> | Some _ \<Rightarrow> g0);
              g2 = (case edges g1 of None \<Rightarrow> g1\<lparr>edges := Some []\<rparr> | Some _ \<Rightarrow> g1)
          in
            case retry_agent_execution (\<lambda>attempt. merger attempt g2 nodes_in edges_in)
                   (openai_max_retries cfg) of
              Inl e \<Rightarrow> Inl e
            | Inr output \<Rightarrow>
                Inr (if \<not> empty_graph_dict (merged_graph output) then merged_graph output
                     else g2))"

section \<open>The bounded concurrent executor (services/search/web\_search.py)\<close>

text \<open>
  \<open>parallel_search\<close> creates one \<open>limited_search\<close> coroutine per query, all sharing one
  \<open>asyncio.Semaphore(max_concurrent)\<close>, and awaits \<open>asyncio.gather(*tasks)\<close>. A coroutine is
  waiting for the semaphore, in flight (it holds the semaphore and awaits its search), or
  done with the outcome of its search.
\<close>

datatype 'a task = Waiting | InFlight | Done "error + 'a"

text \<open>
  The semaphore's counter, the coroutines in the order of the queries, and the exception
  that \<open>gather\<close> has propagated: without \<open>return_exceptions\<close> it is the first one raised by
  any coroutine.
\<close>

record 'a executor =
  sem_value :: nat
  tasks :: "'a task list"
  raised :: "error option"

definition start_tasks :: "nat \<Rightarrow> nat \<Rightarrow> 'a executor" where
  "start_tasks max_concurrent k =
     \<lparr>sem_value = max_concurrent, tasks = replicate k Waiting, raised = None\<rparr>"

text \<open>
  One event of the event loop resumes coroutine \<open>i\<close>: a waiting coroutine acquires the
  semaphore when its counter is positive (and stays blocked otherwise); a coroutine in flight
  finishes its search, with \<open>search i q\<close> the outcome of the search in slot \<open>i\<close>, and releases
  the semaphore on leaving the \<open>async with\<close> block, also when the search raised.
\<close>

definition task_step ::
  "(nat \<Rightarrow> string \<Rightarrow> error + 'a) \<Rightarrow> string list \<Rightarrow> nat \<Rightarrow> 'a executor \<Rightarrow> 'a executor" where
  "task_step search qs i g =
     (if length (tasks g) \<le> i \<or> length qs \<le> i then g
      else
        case tasks g ! i of
          Waiting \<Rightarrow>
            if 0 < sem_value g
            then g\<lparr>sem_value := sem_value g - 1, tasks := (tasks g)[i := InFlight]\<rparr>
            else g
        | InFlight \<Rightarrow>
            let r = search i (qs ! i) in
            g\<lparr>sem_value := sem_value g + 1,
              tasks := (tasks g)[i := Done r],
              raised := (case raised g of
                           Some e \<Rightarrow> Some e
                         | None \<Rightarrow> (case r of Inl e \<Rightarrow> Some e | Inr _ \<Rightarrow> None))\<rparr>
        | Done _ \<Rightarrow> g)"

text \<open>An interleaving is the list of the coroutines resumed, in order.\<close>

fun run_tasks ::
  "(nat \<Rightarrow> string \<Rightarrow> error + 'a) \<Rightarrow> string list \<Rightarrow> nat list \<Rightarrow> 'a executor \<Rightarrow> 'a executor" where
  "run_tasks search qs [] g = g"
| "run_tasks search qs (i # order) g = run_tasks search qs order (task_step search qs i g)"

fun is_in_flight :: "'a task \<Rightarrow> bool" where
  "is_in_flight InFlight = True"
| "is_in_flight _ = False"

definition in_flight :: "'a executor \<Rightarrow> nat" where
  "in_flight g = length (filter is_in_flight (tasks g))"

fun task_result :: "'a task \<Rightarrow> 'a option" where
  "task_result (Done (Inr r)) = Some r"
| "task_result _ = None"

text \<open>
  What the caller awaiting \<open>gather\<close> sees: the first exception as soon as one coroutine
  raised; otherwise the results in the order of the coroutines once all are done. Under an
  interleaving that leaves a coroutine unfinished the caller is never resumed.
\<close>

definition gather :: "'a executor \<Rightarrow> 'a list outcome" where
  "gather g =
     (case raised g of
        Some e \<Rightarrow> Raises e
      | None \<Rightarrow>
          (case those (map task_result (tasks g)) of
             Some results \<Rightarrow> Returns results
           | None \<Rightarrow> Hangs))"

text \<open>\<open>asyncio.Semaphore\<close> rejects a negative initial value with a \<open>ValueError\<close>.\<close>

definition parallel_search ::
  "(nat \<Rightarrow> string \<Rightarrow> error + 'a) \<Rightarrow> string list \<Rightarrow> int \<Rightarrow> nat list \<Rightarrow> 'a list outcome" where
  "parallel_search search qs max_concurrent order =
     (if max_concurrent < 0 then Raises (Exception ''Semaphore initial value must be >= 0'')
      else gather (run_tasks search qs order (start_tasks (nat max_concurrent) (length qs))))"

section \<open>The collaborators\<close>

text \<open>
  The language-model and search services are outside the program. Each is a table of
  responses: the first index is the number of the graph step that makes the call, so that a
  collaborator may answer differently every time it is asked; the merging agents have the
  attempt number of the retry loop as a second index, and a search has its slot in the batch.
  \<open>completion_order\<close> is the interleaving in which the event loop resumes the searches of
  the batch made at that step.
\<close>

record collaborators =
  fresh_uuid :: string
  claude_queries :: "nat \<Rightarrow> error + string list option"
  openai_web_search :: "nat \<Rightarrow> nat \<Rightarrow> string \<Rightarrow> error + web_search_output"
  completion_order :: "nat \<Rightarrow> nat list"
  claude_reflection :: "nat \<Rightarrow> error + reflection"
  entity_merger :: "nat \<Rightarrow> nat \<Rightarrow> entities \<Rightarrow> string \<Rightarrow> error + entity_merge_output"
  connection_mapper :: "nat \<Rightarrow> error + connection_mapping_output"
  graph_merger ::
    "nat \<Rightarrow> nat \<Rightarrow> entity_graph \<Rightarrow> graph_node list \<Rightarrow> graph_edge list
       \<Rightarrow> error + graph_merge_output"
  report_writer :: "nat \<Rightarrow> error + string"

section \<open>The nodes (agents/nodes)\<close>

subsection \<open>initialize.py\<close>

text \<open>The dictionary the graph is invoked with; main.py sets the first four keys.\<close>

record graph_input =
  in_session_id :: "string option"
  in_subject :: "string option"
  in_subject_context :: "string option"
  in_max_depth :: "int option"
  in_max_concurrent_searches :: "int option"

definition initialize_session ::
  "settings \<Rightarrow> collaborators \<Rightarrow> graph_input \<Rightarrow> agent_state outcome" where
  "initialize_session cfg env inp =
     (case in_subject inp of
        None \<Rightarrow> Raises (Exception ''State must contain 'subject' field'')
      | Some subj \<Rightarrow>
          if subj = [] then Raises (Exception ''State must contain 'subject' field'')
          else Returns
            \<lparr>session_id = (case in_session_id inp of None \<Rightarrow> fresh_uuid env | Some sid \<Rightarrow> sid),
             subject = subj,
             subject_context = in_subject_context inp,
             current_depth = 0,
             max_depth = (case in_max_depth inp of None \<Rightarrow> max_search_depth cfg | Some m \<Rightarrow> m),
             queries_executed = [],
             pending_queries = [],
             should_continue = True,
             termination_reason = None,
             search_count = 0,
             extraction_count = 0,
             error_count = 0,
             iteration_count = 0,
             search_iterations = [],
             search_memory = [],
             reflection_memory = [],
             discovered_entities = [],
             entity_graph = \<lparr>nodes = Some [], edges = Some []\<rparr>,
             risk = \<lparr>red_flags = [], neutral = [], positive = []\<rparr>,
             max_concurrent_searches = in_max_concurrent_searches inp,
             key_entities = None,
             report = None\<rparr>)"

subsection \<open>generate\_queries.py and services/search/query\_generator.py\<close>

text \<open>
  \<open>extracted\<close> is the outcome of \<open>claude.extract_structured\<close>: an exception, or the
  dictionary of which \<open>result.get("queries", default)\<close> is read.
\<close>

definition generate_initial_queries ::
  "(error + string list option) \<Rightarrow> string \<Rightarrow> error + string list" where
  "generate_initial_queries extracted subj =
     (case extracted of
        Inl e \<Rightarrow> Inl e
      | Inr result \<Rightarrow>
          Inr (case result of None \<Rightarrow> [subj @ '' background information''] | Some qs \<Rightarrow> qs))"

definition generate_refined_queries ::
  "(error + string list option) \<Rightarrow> string \<Rightarrow> reflection list \<Rightarrow> error + string list" where
  "generate_refined_queries extracted subj memory =
     (if memory = [] then generate_initial_queries extracted subj
      else
        case extracted of
          Inl e \<Rightarrow> Inl e
        | Inr result \<Rightarrow> Inr (case result of None \<Rightarrow> [] | Some qs \<Rightarrow> qs))"

definition generate_search_queries :: "collaborators \<Rightarrow> nat \<Rightarrow> agent_state \<Rightarrow> agent_state" where
  "generate_search_queries env t state =
     (let extracted = claude_queries env t;
          generated =
            (if current_depth state = 0
             then generate_initial_queries extracted (subject state)
             else generate_refined_queries extracted (subject state) (reflection_memory state))
      in
        case generated of
          Inr qs \<Rightarrow> state\<lparr>pending_queries := qs, iteration_count := iteration_count state + 1\<rparr>
        | Inl e \<Rightarrow> state\<lparr>error_count := error_count state + 1, pending_queries := []\<rparr>)"

subsection \<open>web\_search.py\<close>

text \<open>The slices \<open>xs[:n]\<close> and \<open>xs[n:]\<close>; a negative \<open>n\<close> counts from the end.\<close>

definition py_take :: "int \<Rightarrow> 'a list \<Rightarrow> 'a list" where
  "py_take n xs = (if 0 \<le> n then take (nat n) xs else take (length xs - nat (- n)) xs)"

definition py_drop :: "int \<Rightarrow> 'a list \<Rightarrow> 'a list" where
  "py_drop n xs = (if 0 \<le> n then drop (nat n) xs else drop (length xs - nat (- n)) xs)"

text \<open>
  The loop over \<open>zip(queries, results)\<close>, carrying \<open>total_sources\<close>,
  \<open>iteration_search_memories\<close> and \<open>all_sources\<close>.
\<close>

fun collect_results ::
  "int \<Rightarrow> (string \<times> web_search_output) list
     \<Rightarrow> int \<times> search_memory_entry list \<times> web_search_source list
     \<Rightarrow> int \<times> search_memory_entry list \<times> web_search_source list" where
  "collect_results cur [] acc = acc"
| "collect_results cur ((q, result) # rest) (found, memories, all_sources) =
     (let cnt = (if sources result \<noteq> [] then int (length (sources result)) else 0);
          all_sources' =
            (if sources result \<noteq> [] then all_sources @ sources result else all_sources);
          memories' =
            (if search_result result \<noteq> []
             then memories @
                    [\<lparr>sm_query = q, sm_search_result = search_result result,
                      sources_count = cnt, depth = cur\<rparr>]
             else memories)
      in collect_results cur rest (found + cnt, memories', all_sources'))"

definition execute_web_search ::
  "settings \<Rightarrow> collaborators \<Rightarrow> nat \<Rightarrow> agent_state \<Rightarrow> agent_state outcome" where
  "execute_web_search cfg env t state =
     (let qs = pending_queries state in
      if qs = [] then Returns state
      else
        let batch = py_take (max_queries_per_depth cfg) qs;
            cur = current_depth state;
            iteration_data =
              \<lparr>goal = cur, queries = batch, model_used = web_search_model cfg,
               new_entities = [], sources_found = 0, iteration_sources = None, errors = []\<rparr>
        in
          case parallel_search (openai_web_search env t) batch
                 (case max_concurrent_searches state of None \<Rightarrow> 5 | Some c \<Rightarrow> c)
                 (completion_order env t) of
            Hangs \<Rightarrow> Hangs
          | Raises e \<Rightarrow>
              Returns (state
                \<lparr>error_count := error_count state + 1,
                 search_iterations := search_iterations state @
                   [iteration_data\<lparr>errors := errors iteration_data @ [str_of e]\<rparr>]\<rparr>)
          | Returns results \<Rightarrow>
              (case collect_results cur (zip batch results) (0, [], []) of
                 (found, memories, all_sources) \<Rightarrow>
                   Returns (state
                     \<lparr>search_memory := search_memory state @ memories,
                      queries_executed := queries_executed state @ batch,
                      pending_queries := py_drop (max_queries_per_depth cfg) qs,
                      search_count := search_count state + int (length results),
                      search_iterations := search_iterations state @
                        [iteration_data\<lparr>sources_found := found,
                           iteration_sources := Some all_sources\<rparr>]\<rparr>)))"

subsection \<open>analyze.py\<close>

definition analyze_and_reflect ::
  "settings \<Rightarrow> collaborators \<Rightarrow> nat \<Rightarrow> agent_state \<Rightarrow> agent_state outcome" where
  "analyze_and_reflect cfg env t state =
     (if search_memory state = [] then Returns state
      else
        case claude_reflection env t of
          Inl e \<Rightarrow> Raises e
        | Inr reflection_result \<Rightarrow>
            (case merge_entities_with_llm cfg (entity_merger env t) (discovered_entities state)
                    (case analysis_summary reflection_result of None \<Rightarrow> [] | Some a \<Rightarrow> a) of
               Inl e \<Rightarrow> Raises e
             | Inr merged \<Rightarrow>
                 Returns (state
                   \<lparr>reflection_memory := reflection_memory state @ [reflection_result],
                    discovered_entities := merged,
                    should_continue :=
                      (case r_should_continue reflection_result of None \<Rightarrow> True | Some b \<Rightarrow> b),
                    current_depth := current_depth state + 1\<rparr>)))"

subsection \<open>connect.py\<close>

definition map_connections ::
  "settings \<Rightarrow> collaborators \<Rightarrow> nat \<Rightarrow> agent_state \<Rightarrow> agent_state outcome" where
  "map_connections cfg env t state =
     (if discovered_entities state = [] then Returns state
      else
        case connection_mapper env t of
          Inl e \<Rightarrow> Raises e
        | Inr connection_output \<Rightarrow>
            (case merge_graph_with_llm cfg (graph_merger env t) (entity_graph state)
                    (new_nodes connection_output) (new_edges connection_output) of
               Inl e \<Rightarrow> Raises e
             | Inr merged \<Rightarrow>
                 Returns (state
                   \<lparr>entity_graph := merged,
                    risk := (risk state)
                      \<lparr>red_flags := red_flags (risk state) @ suspicious_patterns connection_output\<rparr>,
                    key_entities := Some (key_entities_found connection_output)\<rparr>)))"

subsection \<open>synthesize.py\<close>

text \<open>
  An exception anywhere in the \<open>try\<close> block is re-raised after the state was marked; the
  caller of the graph then sees the exception only.
\<close>

definition synthesize_report :: "collaborators \<Rightarrow> nat \<Rightarrow> agent_state \<Rightarrow> agent_state outcome" where
  "synthesize_report env t state =
     (case report_writer env t of
        Inl e \<Rightarrow> Raises e
      | Inr body \<Rightarrow>
          Returns (state
            \<lparr>report := Some
               \<lparr>report_body = body,
                research_depth = current_depth state,
                total_queries = int (length (queries_executed state)),
                total_sources = sum_list (map sources_found (search_iterations state)),
                report_termination_reason = termination_reason state,
                report_entity_graph = entity_graph state\<rparr>,
             should_continue := False,
             termination_reason :=
               (case termination_reason state of
                  None \<Rightarrow> Some ''report_synthesized''
                | Some r \<Rightarrow> if r = [] then Some ''report_synthesized'' else Some r)\<rparr>))"

section \<open>The workflow graph (agents/graph.py)\<close>

datatype node =
    N_initialize
  | N_generate_queries
  | N_execute_search
  | N_analyze_and_reflect
  | N_map_connections
  | N_synthesize_report
  | N_END

text \<open>
  \<open>_add_workflow_nodes\<close>: the function behind each node name. The entry node has run when
  the state is complete; on a complete state \<open>initialize_session\<close> applies no default, so it
  only checks the subject again.
\<close>

definition run_node ::
  "settings \<Rightarrow> collaborators \<Rightarrow> nat \<Rightarrow> node \<Rightarrow> agent_state \<Rightarrow> agent_state outcome" where
  "run_node cfg env t n state =
     (case n of
        N_initialize \<Rightarrow>
          if subject state = [] then Raises (Exception ''State must contain 'subject' field'')
          else Returns state
      | N_generate_queries \<Rightarrow> Returns (generate_search_queries env t state)
      | N_execute_search \<Rightarrow> execute_web_search cfg env t state
      | N_analyze_and_reflect \<Rightarrow> analyze_and_reflect cfg env t state
      | N_map_connections \<Rightarrow> map_connections cfg env t state
      | N_synthesize_report \<Rightarrow> synthesize_report env t state
      | N_END \<Rightarrow> Returns state)"

text \<open>
  \<open>_add_workflow_edges\<close>: the node after each node. The only conditional edge leaves
  \<open>analyze_and_reflect\<close>: \<open>should_continue_research\<close> is registered as its routing function,
  and of what that function does only the returned edge name is used. What it writes to the
  dictionary it was given does not reach the next node.
\<close>

definition next_node :: "settings \<Rightarrow> node \<Rightarrow> agent_state \<Rightarrow> node" where
  "next_node cfg n state =
     (case n of
        N_initialize \<Rightarrow> N_generate_queries
      | N_generate_queries \<Rightarrow> N_execute_search
      | N_execute_search \<Rightarrow> N_analyze_and_reflect
      | N_analyze_and_reflect \<Rightarrow>
          (case fst (should_continue_research cfg state) of
             continue_search \<Rightarrow> N_generate_queries
           | finalize \<Rightarrow> N_map_connections)
      | N_map_connections \<Rightarrow> N_synthesize_report
      | N_synthesize_report \<Rightarrow> N_END
      | N_END \<Rightarrow> N_END)"

text \<open>
  The graph is built over \<open>AgentState\<close>, and the runtime keeps the keys of that schema only.
  A key outside it is not handed on: \<open>max_concurrent_searches\<close> of the input, and
  \<open>key_entities\<close> and \<open>final_report\<close>, which \<open>map_connections\<close> and \<open>synthesize_report\<close>
  write.
\<close>

definition schema_state :: "agent_state \<Rightarrow> agent_state" where
  "schema_state state =
     state\<lparr>max_concurrent_searches := None, key_entities := None, report := None\<rparr>"

datatype run_status = Completed | Failed error | Recursion_limit | Never_returns

text \<open>How a run ended, the last state, and the nodes entered, oldest first.\<close>

record run_result =
  status :: run_status
  final_state :: agent_state
  visited :: "node list"

text \<open>
  The graph runtime (the library that executes the compiled graph): run the node, keep the
  schema's keys of the state it returns, ask the edge for the next node, until \<open>END\<close>.
  Every node execution is one step; \<open>limit\<close> is the number of steps still allowed by the
  \<open>recursion_limit\<close> of the execution configuration (main.py sets 100), \<open>t\<close> the number
  of steps made so far. A run whose steps are used up is stopped with the recursion error,
  also when only \<open>END\<close> is left.
\<close>

fun run_graph ::
  "settings \<Rightarrow> collaborators \<Rightarrow> nat \<Rightarrow> nat \<Rightarrow> node \<Rightarrow> agent_state \<Rightarrow> node list \<Rightarrow> run_result" where
  "run_graph cfg env 0 t n state trace =
     \<lparr>status = Recursion_limit, final_state = state, visited = trace\<rparr>"
| "run_graph cfg env (Suc limit) t N_END state trace =
     \<lparr>status = Completed, final_state = state, visited = trace\<rparr>"
| "run_graph cfg env (Suc limit) t n state trace =
     (case run_node cfg env t n state of
        Raises e \<Rightarrow> \<lparr>status = Failed e, final_state = state, visited = trace @ [n]\<rparr>
      | Hangs \<Rightarrow> \<lparr>status = Never_returns, final_state = state, visited = trace @ [n]\<rparr>
      | Returns returned \<Rightarrow>
          run_graph cfg env limit (Suc t) (next_node cfg n (schema_state returned))
            (schema_state returned) (trace @ [n]))"

text \<open>
  \<open>graph.ainvoke(initial_state, config)\<close> from the entry point. There is no run to speak
  of (\<open>None\<close>) when no step is allowed or the entry node raises before a state exists.
\<close>

definition research_graph ::
  "settings \<Rightarrow> collaborators \<Rightarrow> nat \<Rightarrow> graph_input \<Rightarrow> run_result option" where
  "research_graph cfg env limit inp =
     (case limit of
        0 \<Rightarrow> None
      | Suc limit' \<Rightarrow>
          (case initialize_session cfg env inp of
             Returns state \<Rightarrow>
               Some (run_graph cfg env limit' 1 N_generate_queries (schema_state state)
                       [N_initialize])
           | _ \<Rightarrow> None))"

section \<open>One iteration of the research loop\<close>

text \<open>
  The state the runtime holds after query generation, search and analysis, run at the steps
  \<open>t\<close>, \<open>t + 1\<close> and \<open>t + 2\<close>; the routing decision comes after it.
\<close>

definition research_cycle ::
  "settings \<Rightarrow> collaborators \<Rightarrow> nat \<Rightarrow> agent_state \<Rightarrow> agent_state outcome" where
  "research_cycle cfg env t state =
     (case execute_web_search cfg env (Suc t)
             (schema_state (generate_search_queries env t state)) of
        Returns searched \<Rightarrow>
          (case analyze_and_reflect cfg env (Suc (Suc t)) (schema_state searched) of
             Returns analyzed \<Rightarrow> Returns (schema_state analyzed)
           | Raises e \<Rightarrow> Raises e
           | Hangs \<Rightarrow> Hangs)
      | Raises e \<Rightarrow> Raises e
      | Hangs \<Rightarrow> Hangs)"

text \<open>
  Each of the next \<open>n\<close> iterations, as long as the routing continues, completes its
  analysis step with the depth raised by exactly one.
\<close>

fun depth_increments ::
  "settings \<Rightarrow> collaborators \<Rightarrow> nat \<Rightarrow> nat \<Rightarrow> agent_state \<Rightarrow> bool" where
  "depth_increments cfg env 0 t state = True"
| "depth_increments cfg env (Suc n) t state =
     (case research_cycle cfg env t state of
        Returns analyzed \<Rightarrow>
          current_depth analyzed = current_depth state + 1
          \<and> (case fst (should_continue_research cfg analyzed) of
                continue_search \<Rightarrow> depth_increments cfg env n (t + 3) analyzed
              | finalize \<Rightarrow> True)
      | Raises e \<Rightarrow> False
      | Hangs \<Rightarrow> False)"

text \<open>The nodes entered by \<open>k\<close> iterations.\<close>

definition cycle_nodes :: "nat \<Rightarrow> node list" where
  "cycle_nodes k = concat (replicate k [N_generate_queries, N_execute_search, N_analyze_and_reflect])"

text \<open>In a trace, the synthesis node is only ever entered right after connection mapping.\<close>

definition synth_preceded :: "node list \<Rightarrow> bool" where
  "synth_preceded xs =
     (\<forall>i < length xs. xs ! i = N_synthesize_report \<longrightarrow> 0 < i \<and> xs ! (i - 1) = N_map_connections)"

section \<open>Auxiliary notions for the properties\<close>

text \<open>
  What holds of the executor after every event: the task list has one coroutine per query;
  the semaphore's counter and the coroutines in flight add up to the limit; a finished
  coroutine holds the outcome of the search of its own slot; \<open>gather\<close> has propagated an
  exception exactly when some coroutine failed, and it is the error of one of the searches.
\<close>

definition executor_inv ::
  "(nat \<Rightarrow> string \<Rightarrow> error + 'a) \<Rightarrow> string list \<Rightarrow> nat \<Rightarrow> 'a executor \<Rightarrow> bool" where
  "executor_inv search qs c g \<longleftrightarrow>
     length (tasks g) = length qs
     \<and> sem_value g + in_flight g = c
     \<and> (\<forall>i < length qs. \<forall>r. tasks g ! i = Done r \<longrightarrow> r = search i (qs ! i))
     \<and> (raised g = None \<longrightarrow> (\<forall>i < length qs. \<forall>e. tasks g ! i \<noteq> Done (Inl e)))
     \<and> (\<forall>e. raised g = Some e \<longrightarrow> (\<exists>i < length qs. search i (qs ! i) = Inl e))"

text \<open>The interleaving that runs the searches one after the other, in the order of the queries.\<close>

definition sequential_order :: "nat \<Rightarrow> nat list" where
  "sequential_order k = concat (map (\<lambda>i. [i, i]) [0..<k])"

text \<open>
  The entries that the loop of the search node appends to \<open>search_memory\<close>: one for each
  query whose result text is not empty, in the order of the queries.
\<close>

definition memory_entries ::
  "int \<Rightarrow> (string \<times> web_search_output) list \<Rightarrow> search_memory_entry list" where
  "memory_entries cur zs =
     map (\<lambda>(q, r). \<lparr>sm_query = q, sm_search_result = search_result r,
                     sources_count = int (length (sources r)), depth = cur\<rparr>)
       (filter (\<lambda>(q, r). search_result r \<noteq> []) zs)"

text \<open>
  \<open>graph.get("nodes", [])\<close> and \<open>graph.get("edges", [])\<close>, and the graph with both keys
  set, which is what \<open>merge_graph_with_llm\<close> hands to the merging agent.
\<close>

definition graph_nodes :: "entity_graph \<Rightarrow> graph_node list" where
  "graph_nodes g = (case nodes g of None \<Rightarrow> [] | Some ns \<Rightarrow> ns)"

definition graph_edges :: "entity_graph \<Rightarrow> graph_edge list" where
  "graph_edges g = (case edges g of None \<Rightarrow> [] | Some es \<Rightarrow> es)"

definition with_graph_keys :: "entity_graph \<Rightarrow> entity_graph" where
  "with_graph_keys g = \<lparr>nodes = Some (graph_nodes g), edges = Some (graph_edges g)\<rparr>"

section \<open>Example inputs\<close>

definition example_settings :: settings where
  "example_settings =
     \<lparr>max_search_depth = 4, max_queries_per_depth = 5, stagnation_check_iterations = 2,
      openai_max_retries = 3, web_search_model = None\<rparr>"

definition r_stagnant :: reflection where
  "r_stagnant =
     \<lparr>analysis_summary = Some ''No New Entities were found.'', r_should_continue = Some True,
      reasoning = Some ''keep looking'', query_strategy = Some ''same topics''\<rparr>"

definition r_substantive :: reflection where
  "r_substantive =
     \<lparr>analysis_summary = Some (concat (replicate 10 ''Acme Ltd paid J. Doe 5M USD. '')),
      r_should_continue = Some True,
      reasoning = Some ''new leads'', query_strategy = Some ''follow J. Doe''\<rparr>"

definition example_input :: graph_input where
  "example_input =
     \<lparr>in_session_id = Some ''session-1'', in_subject = Some ''Acme Ltd'',
      in_subject_context = None, in_max_depth = Some 3, in_max_concurrent_searches = None\<rparr>"

definition example_state :: agent_state where
  "example_state =
     \<lparr>session_id = ''session-1'', subject = ''Acme Ltd'', subject_context = None,
      current_depth = 0, max_depth = 3, queries_executed = [], pending_queries = [],
      should_continue = True, termination_reason = None, search_count = 0,
      extraction_count = 0, error_count = 0, iteration_count = 0, search_iterations = [],
      search_memory = [], reflection_memory = [], discovered_entities = [],
      entity_graph = \<lparr>nodes = Some [], edges = Some []\<rparr>,
      risk = \<lparr>red_flags = [], neutral = [], positive = []\<rparr>,
      max_concurrent_searches = None, key_entities = None, report = None\<rparr>"

definition r_stop :: reflection where
  "r_stop = r_substantive\<lparr>r_should_continue := Some False\<rparr>"


definition s_stop :: agent_state where
  "s_stop = example_state\<lparr>current_depth := 1, reflection_memory := [r_stop]\<rparr>"



definition example_output :: "string \<Rightarrow> web_search_output" where
  "example_output q =
     \<lparr>query = q, search_result = ''findings for '' @ q,
      sources = [\<lparr>url = ''https://example.org/a'', title = ''Example''\<rparr>]\<rparr>"

definition example_env :: collaborators where
  "example_env =
     \<lparr>fresh_uuid = ''uuid-0'',
      claude_queries = (\<lambda>t. Inr (Some [''Acme Ltd owners'', ''Acme Ltd lawsuits''])),
      openai_web_search = (\<lambda>t i q. Inr (example_output q)),
      completion_order = (\<lambda>t. [0, 1, 1, 0]),
      claude_reflection = (\<lambda>t. Inr r_substantive),
      entity_merger = (\<lambda>t k existing text.
        Inr \<lparr>merged_entities = [(''Acme Ltd'', AnyDict [(''mentions'', AnyInt 1)])],
             entities_extracted = [''Acme Ltd'']\<rparr>),
      connection_mapper = (\<lambda>t.
        Inr \<lparr>new_nodes = [\<lparr>node_id = ''acme_ltd'', node_name = ''Acme Ltd'',
                           node_type = ''organization'', node_attributes = []\<rparr>],
             new_edges = [], patterns_identified = [], suspicious_patterns = [],
             key_entities_found = []\<rparr>),
      graph_merger = (\<lambda>t k g ns es.
        Inr \<lparr>merged_graph = \<lparr>nodes = Some ns, edges = Some es\<rparr>,
             nodes_added = int (length ns), edges_added = int (length es), nodes_merged = 0\<rparr>),
      report_writer = (\<lambda>t. Inr ''report'')\<rparr>"

definition depth1_state :: agent_state where
  "depth1_state = example_state\<lparr>max_depth := 1\<rparr>"

definition env_stop :: collaborators where
  "env_stop = example_env\<lparr>claude_reflection := (\<lambda>t. Inr r_stop)\<rparr>"

definition env_no_queries :: collaborators where
  "env_no_queries = example_env\<lparr>claude_queries := (\<lambda>t. Inl (Exception ''overloaded''))\<rparr>"



text \<open>
  Five queries under a limit of two; the search in the third slot fails (after whatever
  retries the search service makes).
\<close>

definition five_queries :: "string list" where
  "five_queries =
     [''Acme Ltd owners'', ''Acme Ltd lawsuits'', ''Acme Ltd filings'',
      ''Acme Ltd directors'', ''Acme Ltd sanctions'']"

definition env_query3_fails :: collaborators where
  "env_query3_fails = example_env
     \<lparr>openai_web_search :=
        (\<lambda>t i q. if i = 2 then Inl (Exception ''timeout'') else Inr (example_output q)),
      completion_order := (\<lambda>t. [0, 1, 0, 2, 1, 3, 2, 4, 3, 4])\<rparr>"

definition state_five :: agent_state where
  "state_five = example_state\<lparr>pending_queries := five_queries, max_concurrent_searches := Some 2\<rparr>"

text \<open>
  A graph with one node, an edge to a node that exists nowhere, and a merging agent that
  keeps only the edges whose endpoints are nodes, as its instructions ask.
\<close>

definition acme_graph :: entity_graph where
  "acme_graph =
     \<lparr>nodes = Some [\<lparr>node_id = ''acme_ltd'', node_name = ''Acme Ltd'',
                      node_type = ''organization'', node_attributes = []\<rparr>],
      edges = Some []\<rparr>"

definition dangling_edge :: graph_edge where
  "dangling_edge =
     \<lparr>source = ''acme_ltd'', target = ''ghost_holdings'', relationship = ''owned_by'',
      confidence = 9 / 10, edge_attributes = []\<rparr>"

definition dropping_merger ::
  "nat \<Rightarrow> entity_graph \<Rightarrow> graph_node list \<Rightarrow> graph_edge list \<Rightarrow> error + graph_merge_output" where
  "dropping_merger k g ns es =
     (let all_nodes = graph_nodes g @ ns;
          ids = map node_id all_nodes;
          kept = filter (\<lambda>e. source e \<in> set ids \<and> target e \<in> set ids) es
      in Inr \<lparr>merged_graph = \<lparr>nodes = Some all_nodes, edges = Some (graph_edges g @ kept)\<rparr>,
              nodes_added = int (length ns), edges_added = int (length kept),
              nodes_merged = 0\<rparr>)"

text \<open>
  An entity-merging agent that raises the mention count of the entity named by the text, as
  its instructions ask.
\<close>

definition mentions_of :: "entities \<Rightarrow> string \<Rightarrow> int" where
  "mentions_of existing name =
     (case map_of existing name of Some (AnyInt n) \<Rightarrow> n | _ \<Rightarrow> 0)"

definition counting_merger ::
  "nat \<Rightarrow> entities \<Rightarrow> string \<Rightarrow> error + entity_merge_output" where
  "counting_merger k existing text =
     Inr \<lparr>merged_entities =
            (text, AnyInt (mentions_of existing text + 1)) # filter (\<lambda>(n, v). n \<noteq> text) existing,
          entities_extracted = [text]\<rparr>"

definition acme_once :: entities where
  "acme_once = [(''Acme Ltd'', AnyDict [(''mentions'', AnyInt 1)])]"

text \<open>Inputs and collaborators for the runs about the depth limit.\<close>

text \<open>The searches of the first batch (step 2 of the run) fail; later ones succeed.\<close>

definition env_first_batch_fails :: collaborators where
  "env_first_batch_fails = example_env
     \<lparr>openai_web_search :=
        (\<lambda>t i q. if t = 2 then Inl (Exception ''timeout'') else Inr (example_output q))\<rparr>"

text \<open>The example request with a depth limit of 1, of -1 and of 40.\<close>

definition depth1_input :: graph_input where
  "depth1_input = example_input\<lparr>in_max_depth := Some 1\<rparr>"

definition negative_depth_input :: graph_input where
  "negative_depth_input = example_input\<lparr>in_max_depth := Some (- 1)\<rparr>"

definition deep_input :: graph_input where
  "deep_input = example_input\<lparr>in_max_depth := Some 40\<rparr>"

text \<open>The queries that the query generator of \<open>example_env\<close> answers.\<close>

definition two_queries :: "string list" where
  "two_queries = [''Acme Ltd owners'', ''Acme Ltd lawsuits'']"

section \<open>Properties of the stagnation detector\<close>

lemma count_stagnant_filter:
  "count_stagnant rs c = c + int (length (filter is_stagnant rs))"
  by (induction rs arbitrary: c) auto

lemma filter_full_iff: "int (length xs) \<le> int (length (filter P xs)) \<longleftrightarrow> list_all P xs"
proof
  assume "int (length xs) \<le> int (length (filter P xs))"
  then have "length (filter P xs) = length xs"
    using length_filter_le [of P xs] by linarith
  then show "list_all P xs"
    by (metis filter_id_conv length_filter_less linorder_not_less list_all_iff order_refl)
next
  assume "list_all P xs"
  then have "filter P xs = xs" by (simp add: list_all_iff)
  then show "int (length xs) \<le> int (length (filter P xs))" by simp
qed

lemma length_last_n: "0 < n \<Longrightarrow> n \<le> int (length xs) \<Longrightarrow> int (length (last_n n xs)) = n"
  by (simp add: last_n_def)

lemma is_stagnant_iff:
  "is_stagnant r \<longleftrightarrow>
     (\<exists>p \<in> set stagnation_indicators. str_in p (analysis_text r))
     \<or> length (analysis_text r) < 200"
  by (simp add: is_stagnant_def Let_def list_ex_iff)

lemma str_in_set: "str_in p s \<Longrightarrow> set p \<subseteq> set s"
proof (induction s)
  case Nil
  then show ?case by simp
next
  case (Cons c cs)
  then show ?case using set_mono_prefix [of p "c # cs"] by auto
qed

lemma length_concat_replicate: "length (concat (replicate k b)) = k * length b"
  by (induction k) auto

lemma lower_block: "lower ''Acme Ltd paid J. Doe 5M USD. '' = ''acme ltd paid j. doe 5m usd. ''"
  by code_simp

lemma text_substantive:
  "analysis_text r_substantive = concat (replicate 10 ''acme ltd paid j. doe 5m usd. '')"
  unfolding analysis_text_def r_substantive_def
  using lower_block by (simp add: lower_def map_concat)

lemma indicators_have_n: "p \<in> set stagnation_indicators \<Longrightarrow> CHR ''n'' \<in> set p"
  by (auto simp: stagnation_indicators_def)

lemma stagnant_example: "is_stagnant r_stagnant"
  by code_simp

lemma substantive_example: "\<not> is_stagnant r_substantive"
proof -
  have "CHR ''n'' \<notin> set (analysis_text r_substantive)"
    unfolding text_substantive by simp
  then have "\<not> list_ex (\<lambda>p. str_in p (analysis_text r_substantive)) stagnation_indicators"
    using indicators_have_n str_in_set by (fastforce simp: list_ex_iff)
  moreover have "length (analysis_text r_substantive) = 290"
    unfolding text_substantive by (simp add: length_concat_replicate)
  ultimately show ?thesis by (simp add: is_stagnant_def Let_def)
qed

text \<open>
  C5. For a window \<open>N \<ge> 1\<close>, \<open>check_stagnation\<close> is true exactly when the memory has at
  least \<open>N\<close> entries and every one of the last \<open>N\<close> is stagnant: its lower-cased
  \<open>analysis_summary\<close> contains one of the fixed phrases, or is shorter than 200 characters.
  So it is false with fewer than \<open>N\<close> entries, and false as soon as one entry of the window
  is not stagnant.
\<close>

theorem check_stagnation_window:
  assumes "1 \<le> N"
  shows "check_stagnation sN rm (Some N) =
           (N \<le> int (length rm) \<and>
            (\<forall>r \<in> set (last_n N rm).
               (\<exists>p \<in> set stagnation_indicators. str_in p (analysis_text r))
               \<or> length (analysis_text r) < 200))"
proof (cases "N \<le> int (length rm)")
  case False
  then show ?thesis using assms by (auto simp: check_stagnation_def Let_def)
next
  case True
  with assms have ne: "rm \<noteq> []" by auto
  have len: "int (length (last_n N rm)) = N"
    using assms True by (simp add: length_last_n)
  have "check_stagnation sN rm (Some N) = (N \<le> count_stagnant (last_n N rm) 0)"
    using assms True ne by (simp add: check_stagnation_def Let_def)
  also have "\<dots> =
      (int (length (last_n N rm)) \<le> int (length (filter is_stagnant (last_n N rm))))"
    by (simp add: count_stagnant_filter len)
  also have "\<dots> = list_all is_stagnant (last_n N rm)"
    by (rule filter_full_iff)
  also have "\<dots> = (\<forall>r \<in> set (last_n N rm).
               (\<exists>p \<in> set stagnation_indicators. str_in p (analysis_text r))
               \<or> length (analysis_text r) < 200)"
    by (simp add: list_all_iff is_stagnant_iff)
  finally show ?thesis using True by simp
qed

theorem check_stagnation_window_witness:
  "(1::int) \<le> 2
   \<and> check_stagnation 2 [r_substantive, r_stagnant, r_stagnant] (Some 2)
   \<and> \<not> check_stagnation 2 [r_stagnant, r_substantive] (Some 2)
   \<and> \<not> check_stagnation 2 [r_stagnant] (Some 2)"
proof -
  have h: "(1::int) \<le> 2" by simp
  have s: "\<And>r. ((\<exists>p \<in> set stagnation_indicators. str_in p (analysis_text r))
               \<or> length (analysis_text r) < 200) = is_stagnant r"
    by (simp add: is_stagnant_iff)
  show ?thesis
    unfolding check_stagnation_window [OF h] s
    by (simp add: last_n_def stagnant_example substantive_example)
qed

lemma check_stagnation_list_all:
  assumes "1 \<le> N"
  shows "check_stagnation sN rm (Some N) =
           (N \<le> int (length rm) \<and> list_all is_stagnant (last_n N rm))"
proof (cases "N \<le> int (length rm)")
  case False
  then show ?thesis using assms by (auto simp: check_stagnation_def Let_def)
next
  case True
  with assms have ne: "rm \<noteq> []" by auto
  have len: "int (length (last_n N rm)) = N"
    using assms True by (simp add: length_last_n)
  have "check_stagnation sN rm (Some N) = (N \<le> count_stagnant (last_n N rm) 0)"
    using assms True ne by (simp add: check_stagnation_def Let_def)
  also have "\<dots> =
      (int (length (last_n N rm)) \<le> int (length (filter is_stagnant (last_n N rm))))"
    by (simp add: count_stagnant_filter len)
  also have "\<dots> = list_all is_stagnant (last_n N rm)"
    by (rule filter_full_iff)
  finally show ?thesis using True by simp
qed

section \<open>Properties of the routing\<close>





lemma init_example: "initialize_session example_settings env example_input = Returns example_state"
  by (simp add: initialize_session_def example_input_def example_state_def example_settings_def)

lemma route_continue:
  "fst (should_continue_research cfg s) = continue_search \<Longrightarrow> current_depth s < max_depth s"
  unfolding should_continue_research_def by (auto split: if_splits)

lemma route_depth_limit:
  "max_depth s \<le> current_depth s \<Longrightarrow> fst (should_continue_research cfg s) = finalize"
  unfolding should_continue_research_def by simp

section \<open>Properties of the retries\<close>

lemma retry_loop_success:
  "retry_loop f m a prev = Inr r \<Longrightarrow> \<exists>k. a \<le> k \<and> k < a + m \<and> f k = Inr r"
proof (induction m arbitrary: a prev)
  case 0
  then show ?case by (simp split: option.splits)
next
  case (Suc m)
  show ?case
  proof (cases "f a")
    case (Inl e)
    with Suc.prems have "retry_loop f m (Suc a) (Some e) = Inr r" by simp
    from Suc.IH [OF this] obtain k where "Suc a \<le> k" "k < Suc a + m" "f k = Inr r" by blast
    then show ?thesis by (intro exI [of _ k]) simp
  next
    case (Inr x)
    with Suc.prems have "x = r" by simp
    with Inr show ?thesis by (intro exI [of _ a]) simp
  qed
qed

lemma retry_success:
  "retry_agent_execution f n = Inr r \<Longrightarrow> \<exists>k < nat n. f k = Inr r"
  unfolding retry_agent_execution_def
  by (drule retry_loop_success) auto

lemma retry_first: "f 0 = Inr r \<Longrightarrow> 0 < n \<Longrightarrow> retry_agent_execution f n = Inr r"
  unfolding retry_agent_execution_def
  by (cases "nat n") simp_all

section \<open>Properties of the workflow graph\<close>

lemma schema_state_fields [simp]:
  "current_depth (schema_state s) = current_depth s"
  "max_depth (schema_state s) = max_depth s"
  "search_memory (schema_state s) = search_memory s"
  "reflection_memory (schema_state s) = reflection_memory s"
  "pending_queries (schema_state s) = pending_queries s"
  "termination_reason (schema_state s) = termination_reason s"
  "subject (schema_state s) = subject s"
  "max_concurrent_searches (schema_state s) = None"
  by (simp_all add: schema_state_def)

lemma schema_state_example: "schema_state example_state = example_state"
  by (simp add: schema_state_def example_state_def)

lemma run_graph_step:
  "n \<noteq> N_END \<Longrightarrow>
   run_graph cfg env (Suc limit) t n s trace =
     (case run_node cfg env t n s of
        Raises e \<Rightarrow> \<lparr>status = Failed e, final_state = s, visited = trace @ [n]\<rparr>
      | Hangs \<Rightarrow> \<lparr>status = Never_returns, final_state = s, visited = trace @ [n]\<rparr>
      | Returns returned \<Rightarrow>
          run_graph cfg env limit (Suc t) (next_node cfg n (schema_state returned))
            (schema_state returned) (trace @ [n]))"
  by (cases n; hypsubst; simp)

lemma visited_prefix: "prefix trace (visited (run_graph cfg env limit t n s trace))"
proof (induction limit arbitrary: t n s trace)
  case 0
  then show ?case by simp
next
  case (Suc limit)
  show ?case
  proof (cases "n = N_END")
    case True
    then show ?thesis by simp
  next
    case False
    show ?thesis
    proof (cases "run_node cfg env t n s")
      case (Returns returned)
      have "prefix (trace @ [n])
              (visited (run_graph cfg env limit (Suc t) (next_node cfg n (schema_state returned))
                 (schema_state returned) (trace @ [n])))"
        by (rule Suc.IH)
      then show ?thesis
        using False Returns by (simp add: run_graph_step append_prefixD)
    qed (simp_all add: run_graph_step False)
  qed
qed

lemma node_entered:
  assumes "n \<noteq> N_END"
  shows "n \<in> set (visited (run_graph cfg env (Suc limit) t n s trace))"
proof -
  have "prefix (trace @ [n]) (visited (run_graph cfg env (Suc limit) t n s trace))"
  proof (cases "run_node cfg env t n s")
    case (Returns returned)
    show ?thesis
      using assms Returns
        visited_prefix [of "trace @ [n]" cfg env limit "Suc t"
          "next_node cfg n (schema_state returned)" "schema_state returned"]
      by (simp add: run_graph_step)
  qed (simp_all add: run_graph_step assms)
  then show ?thesis by (auto simp: prefix_def)
qed

text \<open>
  C10. On a state with an empty \<open>search_memory\<close>, \<open>analyze_and_reflect\<close> returns the
  state as it is: no reflection is appended, the entities and \<open>should_continue\<close> stay, and
  the depth is not raised. Where no analysis has completed yet and the depth is below the
  limit, the graph then goes back to query generation with that state's schema keys.
\<close>

theorem analyze_and_reflect_skips:
  "(search_memory s = [] \<longrightarrow> analyze_and_reflect cfg env t s = Returns s)
   \<and> (search_memory s = [] \<and> reflection_memory s = [] \<and> current_depth s < max_depth s \<longrightarrow>
        run_graph cfg env (Suc limit) t N_analyze_and_reflect s trace =
        run_graph cfg env limit (Suc t) N_generate_queries (schema_state s)
          (trace @ [N_analyze_and_reflect]))"
  by (auto simp: analyze_and_reflect_def run_node_def next_node_def should_continue_research_def
      check_stagnation_def)

theorem analyze_and_reflect_skips_witness:
  "search_memory example_state = [] \<and> reflection_memory example_state = []
   \<and> current_depth example_state < max_depth example_state
   \<and> analyze_and_reflect example_settings example_env 3 example_state = Returns example_state
   \<and> run_graph example_settings example_env 97 3 N_analyze_and_reflect example_state
        [N_initialize, N_generate_queries, N_execute_search] =
      run_graph example_settings example_env 96 4 N_generate_queries example_state
        [N_initialize, N_generate_queries, N_execute_search, N_analyze_and_reflect]"
proof -
  have h: "search_memory example_state = []" "reflection_memory example_state = []"
    "current_depth example_state < max_depth example_state"
    by (simp_all add: example_state_def)
  note inst = analyze_and_reflect_skips [of example_state example_settings example_env 3 96
      "[N_initialize, N_generate_queries, N_execute_search]"]
  from inst h have "analyze_and_reflect example_settings example_env 3 example_state = Returns example_state"
    by blast
  moreover from inst h have
    "run_graph example_settings example_env (Suc 96) 3 N_analyze_and_reflect example_state
        [N_initialize, N_generate_queries, N_execute_search] =
      run_graph example_settings example_env 96 (Suc 3) N_generate_queries
        (schema_state example_state)
        ([N_initialize, N_generate_queries, N_execute_search] @ [N_analyze_and_reflect])"
    by blast
  then have "run_graph example_settings example_env 97 3 N_analyze_and_reflect example_state
        [N_initialize, N_generate_queries, N_execute_search] =
      run_graph example_settings example_env 96 4 N_generate_queries example_state
        [N_initialize, N_generate_queries, N_execute_search, N_analyze_and_reflect]"
    by (simp add: eval_nat_numeral schema_state_example)
  ultimately show ?thesis using h by blast
qed

subsection \<open>The depth limit\<close>

lemma cycle_nodes_add: "cycle_nodes (Suc 0) @ cycle_nodes k = cycle_nodes (Suc k)"
  by (simp add: cycle_nodes_def)

lemma max_depth_generate: "max_depth (generate_search_queries env t s) = max_depth s"
  by (simp add: generate_search_queries_def Let_def split: sum.splits)

lemma max_depth_search: "execute_web_search cfg env t s = Returns s' \<Longrightarrow> max_depth s' = max_depth s"
  by (auto simp: execute_web_search_def Let_def split: if_splits outcome.splits prod.splits)

lemma max_depth_analyze: "analyze_and_reflect cfg env t s = Returns s' \<Longrightarrow> max_depth s' = max_depth s"
  by (auto simp: analyze_and_reflect_def split: if_splits sum.splits)

lemma max_depth_cycle: "research_cycle cfg env t s = Returns s' \<Longrightarrow> max_depth s' = max_depth s"
  by (auto simp: research_cycle_def max_depth_generate split: outcome.splits
      dest!: max_depth_search max_depth_analyze)

lemma run_one_cycle:
  assumes "research_cycle cfg env t s = Returns s1"
  shows "run_graph cfg env (Suc (Suc (Suc l))) t N_generate_queries s trace =
           run_graph cfg env l (t + 3) (next_node cfg N_analyze_and_reflect s1) s1
             (trace @ cycle_nodes 1)"
proof -
  obtain s0 a where
    s0: "execute_web_search cfg env (Suc t) (schema_state (generate_search_queries env t s)) =
           Returns s0"
    and an: "analyze_and_reflect cfg env (Suc (Suc t)) (schema_state s0) = Returns a"
    and s1: "s1 = schema_state a"
    using assms by (auto simp: research_cycle_def split: outcome.splits)
  have t3: "Suc (Suc (Suc t)) = t + 3" by simp
  have n1: "next_node cfg N_generate_queries x = N_execute_search"
    and n2: "next_node cfg N_execute_search x = N_analyze_and_reflect" for x
    by (simp_all add: next_node_def)
  show ?thesis
    by (simp add: run_graph_step run_node_def n1 n2 s0 an s1 t3 cycle_nodes_def)
qed

lemma loop_reaches_finalize:
  assumes "n = nat (max_depth s - current_depth s)"
    and "current_depth s < max_depth s"
    and "depth_increments cfg env n t s"
    and "3 * n \<le> limit"
  shows "\<exists>k s'. 1 \<le> k \<and> k \<le> n
           \<and> run_graph cfg env limit t N_generate_queries s trace =
               run_graph cfg env (limit - 3 * k) (t + 3 * k) N_map_connections s'
                 (trace @ cycle_nodes k)
           \<and> current_depth s' = current_depth s + int k
           \<and> max_depth s' = max_depth s
           \<and> fst (should_continue_research cfg s') = finalize"
  using assms
proof (induction n arbitrary: s t limit trace)
  case 0
  then show ?case by simp
next
  case (Suc n)
  from Suc.prems(3) obtain s1 where
    cyc: "research_cycle cfg env t s = Returns s1"
    and d1: "current_depth s1 = current_depth s + 1"
    and rest: "case fst (should_continue_research cfg s1) of
                 continue_search \<Rightarrow> depth_increments cfg env n (t + 3) s1
               | finalize \<Rightarrow> True"
    by (auto split: outcome.splits)
  have m1: "max_depth s1 = max_depth s" using cyc by (rule max_depth_cycle)
  define l where "l = limit - 3"
  have l: "limit = Suc (Suc (Suc l))" using Suc.prems(4) by (simp add: l_def)
  have ln: "3 * n \<le> l" using Suc.prems(4) by (simp add: l_def)
  have run1: "run_graph cfg env limit t N_generate_queries s trace =
           run_graph cfg env l (t + 3) (next_node cfg N_analyze_and_reflect s1) s1
             (trace @ cycle_nodes 1)"
    unfolding l by (rule run_one_cycle [OF cyc])
  show ?case
  proof (cases "fst (should_continue_research cfg s1)")
    case finalize
    have "run_graph cfg env limit t N_generate_queries s trace =
            run_graph cfg env (limit - 3 * 1) (t + 3 * 1) N_map_connections s1 (trace @ cycle_nodes 1)"
      using run1 finalize l by (simp add: next_node_def)
    moreover have "current_depth s1 = current_depth s + int 1" using d1 by simp
    ultimately show ?thesis using m1 finalize
      by (intro exI [of _ 1] exI [of _ s1]) simp
  next
    case continue_search
    from route_continue [OF continue_search] have lt: "current_depth s1 < max_depth s1" .
    have n: "n = nat (max_depth s1 - current_depth s1)"
      using Suc.prems(1) d1 m1 by linarith
    have inc: "depth_increments cfg env n (t + 3) s1" using rest continue_search by simp
    from Suc.IH [OF n lt inc ln, of "trace @ cycle_nodes 1"] obtain k s' where
      k: "1 \<le> k" "k \<le> n"
      and run: "run_graph cfg env l (t + 3) N_generate_queries s1 (trace @ cycle_nodes 1) =
               run_graph cfg env (l - 3 * k) (t + 3 + 3 * k) N_map_connections s'
                 ((trace @ cycle_nodes 1) @ cycle_nodes k)"
      and d: "current_depth s' = current_depth s1 + int k"
      and m: "max_depth s' = max_depth s1"
      and f: "fst (should_continue_research cfg s') = finalize"
      by blast
    have idx: "l - 3 * k = limit - 3 * Suc k" "t + 3 + 3 * k = t + 3 * Suc k"
      using l by simp_all
    have "run_graph cfg env limit t N_generate_queries s trace =
            run_graph cfg env (limit - 3 * Suc k) (t + 3 * Suc k) N_map_connections s'
              (trace @ cycle_nodes (Suc k))"
      using run1 continue_search run by (simp add: idx cycle_nodes_add next_node_def)
    moreover have "current_depth s' = current_depth s + int (Suc k)" using d d1 by simp
    moreover have "max_depth s' = max_depth s" using m m1 by simp
    ultimately show ?thesis using k f
      by (intro exI [of _ "Suc k"] exI [of _ s']) simp
  qed
qed

text \<open>
  Two runs from the entry point, evaluated: a depth limit of 1 with a first search batch that
  fails, and a depth limit of -1.
\<close>

lemma failed_first_batch_run:
  "(case research_graph example_settings env_first_batch_fails 100 depth1_input of
      Some r \<Rightarrow>
        status r = Completed
        \<and> visited r =
            [N_initialize,
             N_generate_queries, N_execute_search, N_analyze_and_reflect,
             N_generate_queries, N_execute_search, N_analyze_and_reflect,
             N_map_connections, N_synthesize_report]
        \<and> max_depth (final_state r) = 1
        \<and> current_depth (final_state r) = 1
        \<and> length (reflection_memory (final_state r)) = 1
        \<and> error_count (final_state r) = 1
        \<and> termination_reason (final_state r) = Some ''report_synthesized''
    | None \<Rightarrow> False)"
  by code_simp

lemma negative_depth_run:
  "(case research_graph example_settings example_env 100 negative_depth_input of
      Some r \<Rightarrow>
        status r = Completed
        \<and> visited r =
            [N_initialize, N_generate_queries, N_execute_search, N_analyze_and_reflect,
             N_map_connections, N_synthesize_report]
        \<and> max_depth (final_state r) = - 1
    | None \<Rightarrow> False)"
  by code_simp

text \<open>
  With the collaborators of \<open>example_env\<close> every iteration stores results and completes
  its analysis with a substantive reflection that asks to continue, so only the depth limit
  stops the loop; a run that is allowed fewer than three steps per remaining level of depth
  ends at the step limit first.
\<close>

lemma example_search_results:
  "parallel_search (\<lambda>i q. Inr (example_output q)) two_queries 5 [0, 1, 1, 0] =
     Returns (map example_output two_queries)"
  by code_simp

lemma example_generate:
  "pending_queries (generate_search_queries example_env t s) = two_queries
   \<and> current_depth (generate_search_queries example_env t s) = current_depth s
   \<and> max_depth (generate_search_queries example_env t s) = max_depth s
   \<and> reflection_memory (generate_search_queries example_env t s) = reflection_memory s"
  by (simp add: generate_search_queries_def generate_initial_queries_def
      generate_refined_queries_def example_env_def two_queries_def Let_def)

lemma example_search:
  assumes "pending_queries g = two_queries" and "max_concurrent_searches g = None"
  shows "\<exists>g'. execute_web_search example_settings example_env t g = Returns g'
           \<and> search_memory g' \<noteq> []
           \<and> current_depth g' = current_depth g
           \<and> max_depth g' = max_depth g
           \<and> reflection_memory g' = reflection_memory g"
proof -
  have b: "py_take (max_queries_per_depth example_settings) two_queries = two_queries"
    by (simp add: py_take_def example_settings_def two_queries_def)
  have e: "openai_web_search example_env t = (\<lambda>i q. Inr (example_output q))"
    "completion_order example_env t = [0, 1, 1, 0]"
    by (simp_all add: example_env_def)
  have ne: "pending_queries g \<noteq> []" by (simp add: assms(1) two_queries_def)
  have ps: "parallel_search (openai_web_search example_env t)
              (py_take (max_queries_per_depth example_settings) (pending_queries g))
              (case max_concurrent_searches g of None \<Rightarrow> 5 | Some c \<Rightarrow> c)
              (completion_order example_env t) = Returns (map example_output two_queries)"
    unfolding assms b e option.case by (rule example_search_results)
  obtain found mem srcs where
    c: "collect_results (current_depth g)
          (zip (py_take (max_queries_per_depth example_settings) (pending_queries g))
             (map example_output two_queries))
          (0, [], []) = (found, mem, srcs)"
    by (cases "collect_results (current_depth g)
          (zip (py_take (max_queries_per_depth example_settings) (pending_queries g))
             (map example_output two_queries)) (0, [], [])") auto
  have m: "mem \<noteq> []"
    using c unfolding assms b by (auto simp: two_queries_def example_output_def Let_def)
  show ?thesis
    using ne m by (simp add: execute_web_search_def Let_def ps c)
qed

lemma example_analyze:
  assumes "search_memory g \<noteq> []"
  shows "\<exists>a. analyze_and_reflect example_settings example_env t g = Returns a
           \<and> current_depth a = current_depth g + 1
           \<and> max_depth a = max_depth g
           \<and> reflection_memory a = reflection_memory g @ [r_substantive]"
proof -
  have s: "analysis_summary r_substantive \<noteq> None" "the (analysis_summary r_substantive) \<noteq> []"
    by (simp_all add: r_substantive_def)
  then obtain summary where summary: "analysis_summary r_substantive = Some summary" "summary \<noteq> []" by auto
  have r: "retry_agent_execution (\<lambda>k. entity_merger example_env t k (discovered_entities g) summary)
             (openai_max_retries example_settings) =
           Inr \<lparr>merged_entities = acme_once, entities_extracted = [''Acme Ltd'']\<rparr>"
    by (rule retry_first) (simp_all add: example_env_def acme_once_def example_settings_def)
  have m: "merge_entities_with_llm example_settings (entity_merger example_env t)
             (discovered_entities g) summary = Inr acme_once"
    using summary(2) r by (simp add: merge_entities_with_llm_def acme_once_def)
  have c: "claude_reflection example_env t = Inr r_substantive"
    by (simp add: example_env_def)
  show ?thesis
    using assms by (simp add: analyze_and_reflect_def c summary(1) m)
qed

lemma example_cycle:
  "\<exists>s'. research_cycle example_settings example_env t s = Returns s'
         \<and> current_depth s' = current_depth s + 1
         \<and> max_depth s' = max_depth s
         \<and> reflection_memory s' = reflection_memory s @ [r_substantive]"
proof -
  define g where "g = schema_state (generate_search_queries example_env t s)"
  have g: "pending_queries g = two_queries" "max_concurrent_searches g = None"
    "current_depth g = current_depth s" "max_depth g = max_depth s"
    "reflection_memory g = reflection_memory s"
    by (simp_all add: g_def example_generate)
  from example_search [OF g(1,2), of "Suc t"] obtain g' where
    g': "execute_web_search example_settings example_env (Suc t) g = Returns g'"
    "search_memory g' \<noteq> []" "current_depth g' = current_depth g"
    "max_depth g' = max_depth g" "reflection_memory g' = reflection_memory g"
    by blast
  have "search_memory (schema_state g') \<noteq> []" using g'(2) by simp
  from example_analyze [OF this, of "Suc (Suc t)"] obtain a where
    a: "analyze_and_reflect example_settings example_env (Suc (Suc t)) (schema_state g') = Returns a"
    "current_depth a = current_depth (schema_state g') + 1"
    "max_depth a = max_depth (schema_state g')"
    "reflection_memory a = reflection_memory (schema_state g') @ [r_substantive]"
    by blast
  have "research_cycle example_settings example_env t s = Returns (schema_state a)"
    by (simp add: research_cycle_def g_def [symmetric] g'(1) a(1))
  then show ?thesis using a g' g by simp
qed

lemma last_in_last_n: "xs \<noteq> [] \<Longrightarrow> 0 < n \<Longrightarrow> last xs \<in> set (last_n n xs)"
proof -
  assume a: "xs \<noteq> []" "0 < n"
  then have "length xs - nat n < length xs" by (cases xs) auto
  then have "last (drop (length xs - nat n) xs) = last xs" by simp
  moreover have "drop (length xs - nat n) xs \<noteq> []" using \<open>length xs - nat n < length xs\<close> by simp
  ultimately show ?thesis unfolding last_n_def by (metis last_in_set)
qed

lemma example_continues:
  assumes "reflection_memory s = rm @ [r_substantive]" and "current_depth s < max_depth s"
  shows "fst (should_continue_research example_settings s) = continue_search"
proof -
  have "last (rm @ [r_substantive]) \<in> set (last_n 2 (rm @ [r_substantive]))"
    by (rule last_in_last_n) simp_all
  then have "\<not> list_all is_stagnant (last_n 2 (rm @ [r_substantive]))"
    using substantive_example by (auto simp: list_all_iff)
  then have "\<not> check_stagnation 2 (rm @ [r_substantive]) (Some 2)"
    by (simp add: check_stagnation_list_all)
  moreover have "r_should_continue r_substantive = Some True" by (simp add: r_substantive_def)
  ultimately show ?thesis
    using assms by (simp add: should_continue_research_def example_settings_def)
qed

lemma step_limit_before_finalize:
  assumes "n = nat (max_depth s - current_depth s)"
    and "current_depth s < max_depth s"
    and "limit \<le> 3 * n"
    and "N_map_connections \<notin> set trace"
  shows "status (run_graph example_settings example_env limit t N_generate_queries s trace)
           = Recursion_limit
         \<and> N_map_connections \<notin>
             set (visited (run_graph example_settings example_env limit t N_generate_queries s trace))"
  using assms
proof (induction n arbitrary: s t limit trace)
  case 0
  then show ?case by simp
next
  case (Suc n)
  define g where "g = schema_state (generate_search_queries example_env t s)"
  have g: "pending_queries g = two_queries" "max_concurrent_searches g = None"
    by (simp_all add: g_def example_generate)
  from example_search [OF g, of "Suc t"] obtain g' where
    g': "execute_web_search example_settings example_env (Suc t) g = Returns g'" by blast
  have n1: "next_node cfg N_generate_queries x = N_execute_search"
    and n2: "next_node cfg N_execute_search x = N_analyze_and_reflect" for x cfg
    by (simp_all add: next_node_def)
  consider "limit = 0" | "limit = 1" | "limit = 2" | l where "limit = Suc (Suc (Suc l))"
    by (metis One_nat_def Suc_1 not0_implies_Suc)
  then show ?case
  proof cases
    case 1
    then show ?thesis using Suc.prems(4) by simp
  next
    case 2
    then show ?thesis using Suc.prems(4)
      by (simp add: run_graph_step run_node_def)
  next
    case 3
    then show ?thesis using Suc.prems(4)
      by (simp add: eval_nat_numeral run_graph_step run_node_def n1 g_def [symmetric] g')
  next
    case (4 l)
    from example_cycle [of t s] obtain s1 where
      cyc: "research_cycle example_settings example_env t s = Returns s1"
      and d1: "current_depth s1 = current_depth s + 1"
      and m1: "max_depth s1 = max_depth s"
      and r1: "reflection_memory s1 = reflection_memory s @ [r_substantive]"
      by blast
    have run1: "run_graph example_settings example_env limit t N_generate_queries s trace =
           run_graph example_settings example_env l (t + 3)
             (next_node example_settings N_analyze_and_reflect s1) s1 (trace @ cycle_nodes 1)"
      unfolding 4 by (rule run_one_cycle [OF cyc])
    have tr: "N_map_connections \<notin> set (trace @ cycle_nodes 1)"
      using Suc.prems(4) by (simp add: cycle_nodes_def)
    show ?thesis
    proof (cases "current_depth s1 < max_depth s1")
      case True
      from example_continues [OF r1 True]
      have nx: "next_node example_settings N_analyze_and_reflect s1 = N_generate_queries"
        by (simp add: next_node_def)
      have n: "n = nat (max_depth s1 - current_depth s1)"
        using Suc.prems(1) d1 m1 by linarith
      have ll: "l \<le> 3 * n" using Suc.prems(3) 4 by simp
      show ?thesis unfolding run1 nx by (rule Suc.IH [OF n True ll tr])
    next
      case False
      then have "n = 0" using Suc.prems(1) d1 m1 by linarith
      then have "l = 0" using Suc.prems(3) 4 by simp
      then show ?thesis unfolding run1 using tr by simp
    qed
  qed
qed

lemma deep_run:
  "\<exists>r. research_graph example_settings example_env 100 deep_input = Some r
       \<and> status r = Recursion_limit
       \<and> N_map_connections \<notin> set (visited r)"
proof -
  define s0 where "s0 = schema_state (example_state\<lparr>max_depth := 40\<rparr>)"
  have init: "initialize_session example_settings example_env deep_input =
                Returns (example_state\<lparr>max_depth := 40\<rparr>)"
    by (simp add: initialize_session_def deep_input_def example_input_def example_state_def)
  have run: "research_graph example_settings example_env 100 deep_input =
               Some (run_graph example_settings example_env 99 1 N_generate_queries s0 [N_initialize])"
    by (simp add: research_graph_def init s0_def)
  have d: "current_depth s0 = 0" "max_depth s0 = 40"
    by (simp_all add: s0_def example_state_def)
  have "status (run_graph example_settings example_env 99 1 N_generate_queries s0 [N_initialize])
           = Recursion_limit
         \<and> N_map_connections \<notin>
             set (visited (run_graph example_settings example_env 99 1 N_generate_queries s0
                    [N_initialize]))"
    by (rule step_limit_before_finalize [where n = 40]) (simp_all add: d)
  with run show ?thesis by blast
qed

text \<open>
  C3, as stated, fails. With a depth limit of 1 and a first search batch that fails, the
  analysis step finds \<open>search_memory\<close> empty and returns the state as it is, at depth 0;
  the loop makes a second iteration before it finalizes, and the reason the finished run
  holds is \<open>report_synthesized\<close>. With a depth limit of -1 the loop makes one iteration.
  With a depth limit of 40 and the step limit of 100 of main.py the run is stopped at the step
  limit and connection mapping is never entered.
\<close>

theorem depth_cap_not_met:
  "(\<exists>r. research_graph example_settings env_first_batch_fails 100 depth1_input = Some r
        \<and> status r = Completed
        \<and> visited r =
            [N_initialize,
             N_generate_queries, N_execute_search, N_analyze_and_reflect,
             N_generate_queries, N_execute_search, N_analyze_and_reflect,
             N_map_connections, N_synthesize_report]
        \<and> max_depth (final_state r) = 1
        \<and> current_depth (final_state r) = 1
        \<and> length (reflection_memory (final_state r)) = 1
        \<and> termination_reason (final_state r) = Some ''report_synthesized'')
   \<and> (\<exists>r. research_graph example_settings example_env 100 negative_depth_input = Some r
        \<and> status r = Completed
        \<and> visited r =
            [N_initialize, N_generate_queries, N_execute_search, N_analyze_and_reflect,
             N_map_connections, N_synthesize_report]
        \<and> max_depth (final_state r) = - 1)
   \<and> (\<exists>r. research_graph example_settings example_env 100 deep_input = Some r
        \<and> status r = Recursion_limit
        \<and> N_map_connections \<notin> set (visited r))"
proof (intro conjI)
  show "\<exists>r. research_graph example_settings env_first_batch_fails 100 depth1_input = Some r
        \<and> status r = Completed
        \<and> visited r =
            [N_initialize,
             N_generate_queries, N_execute_search, N_analyze_and_reflect,
             N_generate_queries, N_execute_search, N_analyze_and_reflect,
             N_map_connections, N_synthesize_report]
        \<and> max_depth (final_state r) = 1
        \<and> current_depth (final_state r) = 1
        \<and> length (reflection_memory (final_state r)) = 1
        \<and> termination_reason (final_state r) = Some ''report_synthesized''"
    using failed_first_batch_run by (auto split: option.splits)
next
  show "\<exists>r. research_graph example_settings example_env 100 negative_depth_input = Some r
        \<and> status r = Completed
        \<and> visited r =
            [N_initialize, N_generate_queries, N_execute_search, N_analyze_and_reflect,
             N_map_connections, N_synthesize_report]
        \<and> max_depth (final_state r) = - 1"
    using negative_depth_run by (auto split: option.splits)
next
  show "\<exists>r. research_graph example_settings example_env 100 deep_input = Some r
        \<and> status r = Recursion_limit
        \<and> N_map_connections \<notin> set (visited r)"
    by (rule deep_run)
qed

lemma depth1_increments:
  "depth_increments example_settings example_env (nat (max_depth depth1_state)) 1 depth1_state"
  by code_simp

text \<open>
  C3, amended. Start at depth 0 with \<open>max_depth \<ge> 1\<close>, and let every iteration of the run
  complete its analysis step with the depth raised by exactly one. Then, for any reflection
  outputs, the routing chooses the finalize path after \<open>k\<close> iterations of query generation,
  search and analysis with \<open>1 \<le> k \<le> max_depth\<close>, provided the step limit of the graph
  runtime leaves room for \<open>3 * max_depth\<close> node executions and one more: the run continues
  at connection mapping, which is entered, at depth \<open>k\<close>. With \<open>max_depth = 1\<close> there is
  exactly one iteration, and the depth has reached the limit when the routing decides.
\<close>

theorem hard_cap_reaches_finalize:
  assumes "current_depth s = 0" and "1 \<le> max_depth s"
    and "depth_increments cfg env (nat (max_depth s)) t s"
    and "3 * nat (max_depth s) < limit"
  shows "\<exists>k s'. 1 \<le> k \<and> int k \<le> max_depth s
           \<and> run_graph cfg env limit t N_generate_queries s trace =
               run_graph cfg env (limit - 3 * k) (t + 3 * k) N_map_connections s'
                 (trace @ cycle_nodes k)
           \<and> N_map_connections \<in> set (visited (run_graph cfg env limit t N_generate_queries s trace))
           \<and> current_depth s' = int k
           \<and> max_depth s' = max_depth s
           \<and> fst (should_continue_research cfg s') = finalize
           \<and> (max_depth s = 1 \<longrightarrow> k = 1 \<and> max_depth s' \<le> current_depth s')"
proof -
  define n where "n = nat (max_depth s)"
  have n: "n = nat (max_depth s - current_depth s)" using assms(1) by (simp add: n_def)
  have lt: "current_depth s < max_depth s" using assms(1,2) by simp
  have inc: "depth_increments cfg env n t s" using assms(3) by (simp add: n_def)
  have lim: "3 * n \<le> limit" using assms(4) by (simp add: n_def)
  from loop_reaches_finalize [OF n lt inc lim, of trace] obtain k s' where
    k: "1 \<le> k" "k \<le> n"
    and run: "run_graph cfg env limit t N_generate_queries s trace =
               run_graph cfg env (limit - 3 * k) (t + 3 * k) N_map_connections s'
                 (trace @ cycle_nodes k)"
    and d: "current_depth s' = current_depth s + int k"
    and m: "max_depth s' = max_depth s"
    and f: "fst (should_continue_research cfg s') = finalize"
    by blast
  have kn: "int k \<le> max_depth s" using k(2) assms(2) by (simp add: n_def)
  have "0 < limit - 3 * k" using k(2) assms(4) by (simp add: n_def)
  then obtain l where l: "limit - 3 * k = Suc l" by (cases "limit - 3 * k") simp_all
  have vis: "N_map_connections \<in> set (visited (run_graph cfg env limit t N_generate_queries s trace))"
    unfolding run l by (rule node_entered) simp
  have dk: "current_depth s' = int k" using d assms(1) by simp
  have one: "max_depth s = 1 \<longrightarrow> k = 1 \<and> max_depth s' \<le> current_depth s'"
    using k kn dk m by auto
  show ?thesis
    using k(1) kn run vis dk m f one
    by (intro exI [of _ k] exI [of _ s']) simp
qed

theorem hard_cap_reaches_finalize_witness:
  "current_depth depth1_state = 0 \<and> 1 \<le> max_depth depth1_state
   \<and> depth_increments example_settings example_env (nat (max_depth depth1_state)) 1 depth1_state
   \<and> 3 * nat (max_depth depth1_state) < 99
   \<and> (\<exists>s'. run_graph example_settings example_env 99 1 N_generate_queries depth1_state [N_initialize] =
             run_graph example_settings example_env 96 4 N_map_connections s'
               [N_initialize, N_generate_queries, N_execute_search, N_analyze_and_reflect]
           \<and> current_depth s' = 1
           \<and> max_depth s' \<le> current_depth s'
           \<and> fst (should_continue_research example_settings s') = finalize)"
proof -
  have h1: "current_depth depth1_state = 0" by (simp add: depth1_state_def example_state_def)
  have h2: "1 \<le> max_depth depth1_state" by (simp add: depth1_state_def)
  have m: "max_depth depth1_state = 1" by (simp add: depth1_state_def)
  have h4: "3 * nat (max_depth depth1_state) < 99" by (simp add: m)
  from hard_cap_reaches_finalize [OF h1 h2 depth1_increments h4, of "[N_initialize]"]
  obtain k s' where
    run: "run_graph example_settings example_env 99 1 N_generate_queries depth1_state [N_initialize] =
               run_graph example_settings example_env (99 - 3 * k) (1 + 3 * k) N_map_connections s'
                 ([N_initialize] @ cycle_nodes k)"
    and d: "current_depth s' = int k"
    and f: "fst (should_continue_research example_settings s') = finalize"
    and one: "max_depth depth1_state = 1 \<longrightarrow> k = 1 \<and> max_depth s' \<le> current_depth s'"
    by blast
  from one m have k: "k = 1" and r: "max_depth s' \<le> current_depth s'" by simp_all
  have "run_graph example_settings example_env 99 1 N_generate_queries depth1_state [N_initialize] =
             run_graph example_settings example_env 96 4 N_map_connections s'
               [N_initialize, N_generate_queries, N_execute_search, N_analyze_and_reflect]"
    using run by (simp add: k cycle_nodes_def)
  moreover have "current_depth s' = 1" using d k by simp
  ultimately show ?thesis using h1 h2 depth1_increments h4 r f by blast
qed

subsection \<open>Connection mapping before synthesis\<close>

lemma synth_preceded_prefix: "synth_preceded (xs @ ys) \<Longrightarrow> synth_preceded xs"
  unfolding synth_preceded_def
proof (intro allI impI)
  fix i
  assume a: "\<forall>i<length (xs @ ys). (xs @ ys) ! i = N_synthesize_report \<longrightarrow>
               0 < i \<and> (xs @ ys) ! (i - 1) = N_map_connections"
    and i: "i < length xs" and s: "xs ! i = N_synthesize_report"
  from a i s have p: "0 < i \<and> (xs @ ys) ! (i - 1) = N_map_connections"
    by (auto simp: nth_append)
  from i have "i - 1 < length xs" by simp
  with p show "0 < i \<and> xs ! (i - 1) = N_map_connections"
    by (simp add: nth_append)
qed

lemma synth_preceded_snoc:
  assumes "synth_preceded ys" and "ys \<noteq> []"
    and "b = N_synthesize_report \<longrightarrow> last ys = N_map_connections"
  shows "synth_preceded (ys @ [b])"
  unfolding synth_preceded_def
proof (intro allI impI)
  fix i
  assume i: "i < length (ys @ [b])" and s: "(ys @ [b]) ! i = N_synthesize_report"
  show "0 < i \<and> (ys @ [b]) ! (i - 1) = N_map_connections"
  proof (cases "i = length ys")
    case True
    then have "b = N_synthesize_report" using s by simp
    with assms(3) have "last ys = N_map_connections" by simp
    then have "ys ! (length ys - 1) = N_map_connections"
      using assms(2) by (simp add: last_conv_nth)
    moreover have "0 < length ys" using assms(2) by simp
    ultimately show ?thesis using True by (simp add: nth_append)
  next
    case False
    with i have lt: "i < length ys" by simp
    with s have "ys ! i = N_synthesize_report" by (simp add: nth_append)
    with assms(1) lt have p: "0 < i \<and> ys ! (i - 1) = N_map_connections"
      unfolding synth_preceded_def by blast
    from lt have "i - 1 < length ys" by simp
    with p show ?thesis by (simp add: nth_append)
  qed
qed

lemma next_node_synth:
  "next_node cfg n s = N_synthesize_report \<Longrightarrow> n = N_map_connections"
  by (cases n) (auto simp: next_node_def split: route.splits)

lemma run_graph_synth_preceded:
  "synth_preceded (trace @ [n]) \<Longrightarrow> synth_preceded (visited (run_graph cfg env limit t n s trace))"
proof (induction limit arbitrary: t n s trace)
  case 0
  then show ?case by (auto dest: synth_preceded_prefix)
next
  case (Suc limit)
  show ?case
  proof (cases "n = N_END")
    case True
    with Suc.prems show ?thesis by (auto dest: synth_preceded_prefix)
  next
    case False
    show ?thesis
    proof (cases "run_node cfg env t n s")
      case (Returns returned)
      define n' where "n' = next_node cfg n (schema_state returned)"
      have "synth_preceded ((trace @ [n]) @ [n'])"
        using Suc.prems next_node_synth [of cfg n "schema_state returned"]
          synth_preceded_snoc [of "trace @ [n]" n']
        by (auto simp: n'_def)
      then have "synth_preceded
                   (visited (run_graph cfg env limit (Suc t) n' (schema_state returned) (trace @ [n])))"
        by (rule Suc.IH)
      then show ?thesis using False Returns by (simp add: run_graph_step n'_def)
    qed (use Suc.prems False in \<open>simp_all add: run_graph_step\<close>)
  qed
qed

lemma research_graph_synth_preceded:
  assumes "research_graph cfg env limit inp = Some r"
  shows "synth_preceded (visited r)"
proof -
  from assms obtain l s where "r = run_graph cfg env l 1 N_generate_queries s [N_initialize]"
    by (auto simp: research_graph_def split: nat.splits outcome.splits)
  moreover have "synth_preceded ([N_initialize] @ [N_generate_queries])"
    by (auto simp: synth_preceded_def nth_Cons')
  ultimately show ?thesis using run_graph_synth_preceded by blast
qed

lemma stop_run:
  "(case research_graph example_settings env_stop 100 example_input of
      Some r \<Rightarrow>
        visited r = [N_initialize, N_generate_queries, N_execute_search, N_analyze_and_reflect,
                     N_map_connections, N_synthesize_report]
        \<and> status r = Completed
        \<and> map r_should_continue (reflection_memory (final_state r)) = [Some False]
    | None \<Rightarrow> False)"
  by code_simp

lemma s_stop_route: "fst (should_continue_research example_settings s_stop) = finalize"
  by (simp add: should_continue_research_def s_stop_def example_state_def r_stop_def)

text \<open>
  C6. Whatever criterion stops the loop, a finalize decision of the routing leads to
  connection mapping, whose only successor is synthesis; and in every run from the entry
  point, each time the synthesis node is entered the node entered just before it is
  connection mapping. This includes the run whose first reflection says not to continue.
\<close>

theorem connections_before_synthesis:
  "(fst (should_continue_research cfg s) = finalize \<longrightarrow>
      next_node cfg N_analyze_and_reflect s = N_map_connections)
   \<and> next_node cfg N_map_connections s = N_synthesize_report
   \<and> (research_graph cfg env limit inp = Some r \<longrightarrow>
        (\<forall>i < length (visited r).
           visited r ! i = N_synthesize_report \<longrightarrow>
           0 < i \<and> visited r ! (i - 1) = N_map_connections))"
proof (intro conjI impI)
  assume "fst (should_continue_research cfg s) = finalize"
  then show "next_node cfg N_analyze_and_reflect s = N_map_connections"
    by (simp add: next_node_def)
next
  show "next_node cfg N_map_connections s = N_synthesize_report"
    by (simp add: next_node_def)
next
  assume "research_graph cfg env limit inp = Some r"
  then have "synth_preceded (visited r)" by (rule research_graph_synth_preceded)
  then show "\<forall>i < length (visited r).
           visited r ! i = N_synthesize_report \<longrightarrow>
           0 < i \<and> visited r ! (i - 1) = N_map_connections"
    by (simp add: synth_preceded_def)
qed

theorem connections_before_synthesis_witness:
  "fst (should_continue_research example_settings s_stop) = finalize
   \<and> next_node example_settings N_analyze_and_reflect s_stop = N_map_connections
   \<and> (\<exists>r. research_graph example_settings env_stop 100 example_input = Some r
          \<and> status r = Completed
          \<and> map r_should_continue (reflection_memory (final_state r)) = [Some False]
          \<and> 5 < length (visited r)
          \<and> visited r ! 5 = N_synthesize_report
          \<and> visited r ! 4 = N_map_connections)"
proof -
  note inst = connections_before_synthesis
    [of example_settings s_stop env_stop 100 example_input]
  obtain r where r: "research_graph example_settings env_stop 100 example_input = Some r"
    and v: "visited r = [N_initialize, N_generate_queries, N_execute_search,
              N_analyze_and_reflect, N_map_connections, N_synthesize_report]"
    and st: "status r = Completed"
    and tr: "map r_should_continue (reflection_memory (final_state r)) = [Some False]"
    using stop_run by (auto split: option.splits)
  have len: "5 < length (visited r)" and five: "visited r ! 5 = N_synthesize_report"
    by (simp_all add: v)
  from inst [of r] r len five have "visited r ! (5 - 1) = N_map_connections" by blast
  then have four: "visited r ! 4 = N_map_connections" by simp
  from inst [of r] s_stop_route have
    "next_node example_settings N_analyze_and_reflect s_stop = N_map_connections" by blast
  then show ?thesis
    using s_stop_route r st tr len five four
    by (intro conjI exI [of _ r])
qed

subsection \<open>No queries generated\<close>

lemma generate_fails:
  assumes "claude_queries env t = Inl e"
  shows "generate_search_queries env t s = s\<lparr>error_count := error_count s + 1, pending_queries := []\<rparr>"
  using assms
  by (simp add: generate_search_queries_def generate_initial_queries_def
      generate_refined_queries_def Let_def)

lemma stuck_loop:
  assumes q: "\<And>t. \<exists>e. claude_queries env t = Inl e"
  shows "n \<in> {N_generate_queries, N_execute_search, N_analyze_and_reflect} \<Longrightarrow>
         search_memory s = [] \<Longrightarrow> reflection_memory s = [] \<Longrightarrow>
         current_depth s < max_depth s \<Longrightarrow> termination_reason s = None \<Longrightarrow>
         (n \<noteq> N_generate_queries \<longrightarrow> pending_queries s = []) \<Longrightarrow>
         N_synthesize_report \<notin> set trace \<Longrightarrow>
         status (run_graph cfg env limit t n s trace) = Recursion_limit
         \<and> termination_reason (final_state (run_graph cfg env limit t n s trace)) = None
         \<and> N_synthesize_report \<notin> set (visited (run_graph cfg env limit t n s trace))"
proof (induction limit arbitrary: t n s trace)
  case 0
  then show ?case by simp
next
  case (Suc limit)
  from Suc.prems(1) consider "n = N_generate_queries" | "n = N_execute_search"
    | "n = N_analyze_and_reflect" by auto
  then show ?case
  proof cases
    case 1
    obtain e where e: "claude_queries env t = Inl e" using q by blast
    define s' where
      "s' = schema_state (s\<lparr>error_count := error_count s + 1, pending_queries := []\<rparr>)"
    have step: "run_graph cfg env (Suc limit) t n s trace =
                run_graph cfg env limit (Suc t) N_execute_search s' (trace @ [n])"
      using 1 by (simp add: run_node_def next_node_def generate_fails [OF e] s'_def)
    show ?thesis unfolding step
      using Suc.prems 1 by (intro Suc.IH) (simp_all add: s'_def)
  next
    case 2
    have step: "run_graph cfg env (Suc limit) t n s trace =
                run_graph cfg env limit (Suc t) N_analyze_and_reflect (schema_state s) (trace @ [n])"
      using 2 Suc.prems(6) by (simp add: run_node_def next_node_def execute_web_search_def)
    show ?thesis unfolding step
      using Suc.prems 2 by (intro Suc.IH) simp_all
  next
    case 3
    have step: "run_graph cfg env (Suc limit) t n s trace =
                run_graph cfg env limit (Suc t) N_generate_queries (schema_state s) (trace @ [n])"
      using 3 Suc.prems(2,3,4)
      by (simp add: run_node_def next_node_def analyze_and_reflect_def
          should_continue_research_def check_stagnation_def)
    show ?thesis unfolding step
      using Suc.prems 3 by (intro Suc.IH) simp_all
  qed
qed

text \<open>
  C4. \<open>has_new_queries\<close> would stop a session without pending queries with the reason
  \<open>no_additional_queries\<close>, but the graph has no edge that calls it: after a query
  generation that yields nothing the search node runs on the empty queue and returns the
  state as it is, and no reason is recorded. With a query generator that fails every time the
  run never reaches synthesis; it ends at the step limit.
\<close>

theorem no_queries_check_not_wired:
  "(let s = generate_search_queries env_no_queries 1 example_state in
      pending_queries s = []
      \<and> has_new_queries s = (synthesize, s\<lparr>termination_reason := Some ''no_additional_queries''\<rparr>)
      \<and> next_node example_settings N_generate_queries s = N_execute_search
      \<and> execute_web_search example_settings env_no_queries 2 s = Returns s
      \<and> termination_reason s = None)
   \<and> (\<exists>r. research_graph example_settings env_no_queries 100 example_input = Some r
          \<and> status r = Recursion_limit
          \<and> termination_reason (final_state r) = None
          \<and> N_synthesize_report \<notin> set (visited r))"
proof -
  have q: "\<And>t. \<exists>e. claude_queries env_no_queries t = Inl e"
    by (simp add: env_no_queries_def)
  define s where "s = generate_search_queries env_no_queries 1 example_state"
  have s: "s = example_state\<lparr>error_count := error_count example_state + 1, pending_queries := []\<rparr>"
    unfolding s_def by (rule generate_fails) (simp add: env_no_queries_def)
  have p: "pending_queries s = []" by (simp add: s)
  have a: "has_new_queries s = (synthesize, s\<lparr>termination_reason := Some ''no_additional_queries''\<rparr>)"
    by (simp add: has_new_queries_def p)
  have b: "next_node example_settings N_generate_queries s = N_execute_search"
    by (simp add: next_node_def)
  have c: "execute_web_search example_settings env_no_queries 2 s = Returns s"
    by (simp add: execute_web_search_def p)
  have d: "termination_reason s = None" by (simp add: s example_state_def)
  have first: "(let s = generate_search_queries env_no_queries 1 example_state in
      pending_queries s = []
      \<and> has_new_queries s = (synthesize, s\<lparr>termination_reason := Some ''no_additional_queries''\<rparr>)
      \<and> next_node example_settings N_generate_queries s = N_execute_search
      \<and> execute_web_search example_settings env_no_queries 2 s = Returns s
      \<and> termination_reason s = None)"
    unfolding Let_def s_def [symmetric] using p a b c d by (intro conjI)
  have run: "research_graph example_settings env_no_queries 100 example_input =
               Some (run_graph example_settings env_no_queries 99 1 N_generate_queries example_state
                       [N_initialize])"
    by (simp add: research_graph_def init_example schema_state_example)
  have "status (run_graph example_settings env_no_queries 99 1 N_generate_queries example_state
                  [N_initialize]) = Recursion_limit
        \<and> termination_reason (final_state (run_graph example_settings env_no_queries 99 1
             N_generate_queries example_state [N_initialize])) = None
        \<and> N_synthesize_report \<notin> set (visited (run_graph example_settings env_no_queries 99 1
             N_generate_queries example_state [N_initialize]))"
    by (rule stuck_loop [OF q]) (simp_all add: example_state_def)
  with run first show ?thesis by blast
qed

section \<open>Properties of the bounded concurrent executor\<close>

lemma filter_length_update:
  "i < length xs \<Longrightarrow>
   length (filter P (xs[i := y])) + (if P (xs ! i) then 1 else 0) =
   length (filter P xs) + (if P y then 1 else 0)"
proof (induction xs arbitrary: i)
  case Nil
  then show ?case by simp
next
  case (Cons x xs)
  then show ?case by (cases i) auto
qed

lemma inv_start: "executor_inv search qs c (start_tasks c (length qs))"
  by (simp add: executor_inv_def start_tasks_def in_flight_def)

lemma inv_step:
  assumes "executor_inv search qs c g"
  shows "executor_inv search qs c (task_step search qs i g)"
proof (cases "length (tasks g) \<le> i \<or> length qs \<le> i")
  case True
  then show ?thesis using assms by (simp add: task_step_def)
next
  case False
  then have i: "i < length (tasks g)" "i < length qs" by simp_all
  from assms have len: "length (tasks g) = length qs"
    and sem: "sem_value g + in_flight g = c"
    and res: "\<forall>j < length qs. \<forall>r. tasks g ! j = Done r \<longrightarrow> r = search j (qs ! j)"
    and nor: "raised g = None \<longrightarrow> (\<forall>j < length qs. \<forall>e. tasks g ! j \<noteq> Done (Inl e))"
    and rai: "\<forall>e. raised g = Some e \<longrightarrow> (\<exists>j < length qs. search j (qs ! j) = Inl e)"
    by (simp_all add: executor_inv_def)
  show ?thesis
  proof (cases "tasks g ! i")
    case Waiting
    show ?thesis
    proof (cases "0 < sem_value g")
      case sem_pos: True
      have st: "task_step search qs i g =
                  g\<lparr>sem_value := sem_value g - 1, tasks := (tasks g)[i := InFlight]\<rparr>"
        using i Waiting sem_pos by (simp add: task_step_def)
      have "length (filter is_in_flight ((tasks g)[i := InFlight])) = Suc (in_flight g)"
        using filter_length_update [OF i(1), of is_in_flight InFlight] Waiting
        by (simp add: in_flight_def)
      then have a: "sem_value g - 1 + in_flight (g\<lparr>sem_value := sem_value g - 1, tasks := (tasks g)[i := InFlight]\<rparr>) = c"
        using sem sem_pos by (simp add: in_flight_def)
      show ?thesis
        unfolding st executor_inv_def
        using a len res nor rai Waiting i
        by (auto simp: nth_list_update)
    next
      case False
      then show ?thesis using assms i Waiting by (simp add: task_step_def)
    qed
  next
    case InFlight
    define r where "r = search i (qs ! i)"
    define g' where "g' = g\<lparr>sem_value := sem_value g + 1,
              tasks := (tasks g)[i := Done r],
              raised := (case raised g of
                           Some e \<Rightarrow> Some e
                         | None \<Rightarrow> (case r of Inl e \<Rightarrow> Some e | Inr _ \<Rightarrow> None))\<rparr>"
    have st: "task_step search qs i g = g'"
      unfolding g'_def r_def using i InFlight by (simp add: task_step_def Let_def)
    have "length (filter is_in_flight ((tasks g)[i := Done r])) + 1 = in_flight g"
      using filter_length_update [OF i(1), of is_in_flight "Done r"] InFlight
      by (simp add: in_flight_def)
    then have a: "sem_value g' + in_flight g' = c"
      using sem by (simp add: in_flight_def g'_def)
    have b: "length (tasks g') = length qs" using len by (simp add: g'_def)
    have c: "\<forall>j < length qs. \<forall>x. tasks g' ! j = Done x \<longrightarrow> x = search j (qs ! j)"
      using res i len by (auto simp: g'_def nth_list_update r_def)
    have d: "raised g' = None \<longrightarrow> (\<forall>j < length qs. \<forall>e. tasks g' ! j \<noteq> Done (Inl e))"
      using nor i len by (auto simp: g'_def nth_list_update split: option.splits sum.splits)
    have e: "\<forall>e. raised g' = Some e \<longrightarrow> (\<exists>j < length qs. search j (qs ! j) = Inl e)"
      using rai i by (auto simp: g'_def r_def split: option.splits sum.splits)
    show ?thesis unfolding st executor_inv_def using a b c d e by blast
  next
    case (Done x)
    then show ?thesis using assms i by (simp add: task_step_def)
  qed
qed

lemma inv_run:
  "executor_inv search qs c g \<Longrightarrow> executor_inv search qs c (run_tasks search qs order g)"
  by (induction order arbitrary: g) (simp_all add: inv_step)

lemma those_map_Some:
  "those (map f xs) = Some ys \<Longrightarrow> length ys = length xs \<and> (\<forall>i < length xs. f (xs ! i) = Some (ys ! i))"
proof (induction xs arbitrary: ys)
  case Nil
  then show ?case by simp
next
  case (Cons x xs)
  then show ?case
    by (auto split: option.splits simp: nth_Cons')
qed

lemma task_result_Some: "task_result t = Some r \<longleftrightarrow> t = Done (Inr r)"
  by (cases t rule: task_result.cases) auto

lemma gather_returns:
  assumes "executor_inv search qs c g" and "gather g = Returns results"
  shows "length results = length qs \<and> (\<forall>i < length qs. search i (qs ! i) = Inr (results ! i))"
proof -
  from assms(2) have th: "those (map task_result (tasks g)) = Some results"
    by (auto simp: gather_def split: option.splits)
  from those_map_Some [OF th] have l: "length results = length (tasks g)"
    and r: "\<forall>i < length (tasks g). task_result (tasks g ! i) = Some (results ! i)" by simp_all
  from assms(1) have len: "length (tasks g) = length qs"
    and res: "\<forall>j < length qs. \<forall>r. tasks g ! j = Done r \<longrightarrow> r = search j (qs ! j)"
    by (simp_all add: executor_inv_def)
  show ?thesis
  proof (intro conjI allI impI)
    show "length results = length qs" using l len by simp
  next
    fix i assume i: "i < length qs"
    with r len have "tasks g ! i = Done (Inr (results ! i))" by (simp add: task_result_Some)
    with res i show "search i (qs ! i) = Inr (results ! i)" by auto
  qed
qed

lemma gather_raises:
  assumes "executor_inv search qs c g" and "gather g = Raises e"
  shows "\<exists>i < length qs. search i (qs ! i) = Inl e"
proof -
  from assms(2) have "raised g = Some e"
    by (auto simp: gather_def split: option.splits)
  with assms(1) show ?thesis by (simp add: executor_inv_def)
qed




text \<open>
  The call can come back: with a limit of at least one, under the interleaving that runs the
  searches one after the other \<open>parallel_search\<close> returns or raises.
\<close>

lemma run_tasks_append:
  "run_tasks search qs (xs @ ys) g = run_tasks search qs ys (run_tasks search qs xs g)"
  by (induction xs arbitrary: g) simp_all

lemma sequential_order_Suc: "sequential_order (Suc j) = sequential_order j @ [j, j]"
  by (simp add: sequential_order_def)

lemma sequential_progress:
  assumes "0 < c"
  shows "j \<le> length qs \<Longrightarrow>
         sem_value (run_tasks search qs (sequential_order j) (start_tasks c (length qs))) = c
         \<and> length (tasks (run_tasks search qs (sequential_order j) (start_tasks c (length qs))))
             = length qs
         \<and> (\<forall>i < length qs.
               if i < j
               then \<exists>r. tasks (run_tasks search qs (sequential_order j)
                                 (start_tasks c (length qs))) ! i = Done r
               else tasks (run_tasks search qs (sequential_order j)
                             (start_tasks c (length qs))) ! i = Waiting)"
proof (induction j)
  case 0
  then show ?case by (simp add: sequential_order_def start_tasks_def)
next
  case (Suc j)
  define g where "g = run_tasks search qs (sequential_order j) (start_tasks c (length qs))"
  from Suc have j: "j < length qs" by simp
  from Suc.IH j have sem: "sem_value g = c" and len: "length (tasks g) = length qs"
    and ts: "\<forall>i < length qs. if i < j then \<exists>r. tasks g ! i = Done r else tasks g ! i = Waiting"
    unfolding g_def by simp_all
  from ts j have w: "tasks g ! j = Waiting" by auto
  define g1 where "g1 = g\<lparr>sem_value := sem_value g - 1, tasks := (tasks g)[j := InFlight]\<rparr>"
  have s1: "task_step search qs j g = g1"
    unfolding g1_def using j len w sem assms by (simp add: task_step_def)
  have f: "tasks g1 ! j = InFlight" using j len by (simp add: g1_def)
  define r where "r = search j (qs ! j)"
  define rz where "rz = (case raised g1 of
                           Some e \<Rightarrow> Some e
                         | None \<Rightarrow> (case search j (qs ! j) of Inl e \<Rightarrow> Some e | Inr _ \<Rightarrow> None))"
  have s2': "task_step search qs j g1 =
              g1\<lparr>sem_value := sem_value g1 + 1, tasks := (tasks g1)[j := Done r], raised := rz\<rparr>"
    unfolding r_def rz_def using j len f by (simp add: task_step_def Let_def g1_def)
  have run: "run_tasks search qs (sequential_order (Suc j)) (start_tasks c (length qs)) =
             g1\<lparr>sem_value := sem_value g1 + 1, tasks := (tasks g1)[j := Done r], raised := rz\<rparr>"
    by (simp add: sequential_order_Suc run_tasks_append g_def [symmetric] s1 s2')
  show ?case
    unfolding run
    using sem len ts j assms
    by (auto simp: g1_def nth_list_update less_Suc_eq)
qed

lemma those_map_total:
  "(\<forall>x \<in> set xs. f x \<noteq> None) \<Longrightarrow> those (map f xs) \<noteq> None"
  by (induction xs) (auto split: option.splits)

lemma all_done_no_hang:
  assumes "executor_inv search qs c g" and "\<forall>i < length qs. \<exists>r. tasks g ! i = Done r"
  shows "gather g \<noteq> Hangs"
proof (cases "raised g")
  case (Some e)
  then show ?thesis by (simp add: gather_def)
next
  case None
  from assms(1) have len: "length (tasks g) = length qs"
    and nor: "raised g = None \<longrightarrow> (\<forall>j < length qs. \<forall>e. tasks g ! j \<noteq> Done (Inl e))"
    by (simp_all add: executor_inv_def)
  have "\<forall>x \<in> set (tasks g). task_result x \<noteq> None"
  proof
    fix x assume "x \<in> set (tasks g)"
    then obtain i where i: "i < length (tasks g)" and x: "x = tasks g ! i"
      by (auto simp: in_set_conv_nth)
    with assms(2) len obtain r where r: "x = Done r" by auto
    have "tasks g ! i \<noteq> Done (Inl e)" for e using nor None i len by simp
    with x r have "\<forall>e. r \<noteq> Inl e" by metis
    then obtain v where "r = Inr v" by (cases r) auto
    with r show "task_result x \<noteq> None" by simp
  qed
  then have "those (map task_result (tasks g)) \<noteq> None" by (rule those_map_total)
  with None show ?thesis by (auto simp: gather_def split: option.splits)
qed

lemma sequential_order_completes:
  assumes "0 < c"
  shows "parallel_search search qs (int c) (sequential_order (length qs)) \<noteq> Hangs"
proof -
  define g where "g = run_tasks search qs (sequential_order (length qs)) (start_tasks c (length qs))"
  have inv: "executor_inv search qs c g" unfolding g_def by (intro inv_run inv_start)
  have "\<forall>i < length qs. \<exists>r. tasks g ! i = Done r"
    using sequential_progress [OF assms, of "length qs" qs search] unfolding g_def by auto
  with inv have "gather g \<noteq> Hangs" by (rule all_done_no_hang)
  then show ?thesis by (simp add: parallel_search_def g_def)
qed

subsection \<open>A failing search\<close>

lemma five_raises:
  "parallel_search (openai_web_search env_query3_fails 2) five_queries 2
     (completion_order env_query3_fails 2) = Raises (Exception ''timeout'')"
  by code_simp

lemma five_batch: "py_take (max_queries_per_depth example_settings) five_queries = five_queries"
  by (simp add: py_take_def example_settings_def five_queries_def)

lemma five_execute:
  "execute_web_search example_settings env_query3_fails 2 state_five =
     Returns (state_five
       \<lparr>error_count := 1,
        search_iterations :=
          [\<lparr>goal = 0, queries = five_queries, model_used = None, new_entities = [],
            sources_found = 0, iteration_sources = None, errors = [''timeout'']\<rparr>]\<rparr>)"
proof -
  have p: "pending_queries state_five = five_queries" "five_queries \<noteq> []"
    "max_concurrent_searches state_five = Some 2"
    by (simp_all add: state_five_def five_queries_def)
  show ?thesis
    unfolding execute_web_search_def Let_def p five_batch
    using p(2) five_raises
    by (simp add: state_five_def example_state_def example_settings_def)
qed

lemma collect_memories:
  "collect_results cur zs (found, mem, srcs) = (found', mem', srcs') \<Longrightarrow>
   mem' = mem @ memory_entries cur zs"
proof (induction zs arbitrary: found mem srcs)
  case Nil
  then show ?case by (simp add: memory_entries_def)
next
  case (Cons z zs)
  obtain q r where z: "z = (q, r)" by (cases z)
  from Cons.prems show ?case
    unfolding z
    by (auto simp: Let_def memory_entries_def dest!: Cons.IH split: if_splits)
qed

text \<open>
  C1, as stated, fails. With five queries, a limit of two and a third search that fails, the
  caller of \<open>parallel_search\<close> receives no list of five slots but the exception, and the
  search node stores no result at all: \<open>search_memory\<close>, \<open>queries_executed\<close> and the
  pending queue are as before, and the error is recorded once for the whole batch.
\<close>

theorem one_failure_loses_the_batch:
  "\<not> (\<exists>slots. parallel_search (openai_web_search env_query3_fails 2) five_queries 2
                  (completion_order env_query3_fails 2) = Returns slots
               \<and> length slots = length five_queries)
   \<and> (\<exists>s'. execute_web_search example_settings env_query3_fails 2 state_five = Returns s'
          \<and> search_memory s' = []
          \<and> queries_executed s' = []
          \<and> pending_queries s' = five_queries
          \<and> search_count s' = 0
          \<and> error_count s' = 1
          \<and> map errors (search_iterations s') = [[''timeout'']])"
proof
  show "\<not> (\<exists>slots. parallel_search (openai_web_search env_query3_fails 2) five_queries 2
                  (completion_order env_query3_fails 2) = Returns slots
               \<and> length slots = length five_queries)"
    by (simp add: five_raises)
next
  show "\<exists>s'. execute_web_search example_settings env_query3_fails 2 state_five = Returns s'
          \<and> search_memory s' = []
          \<and> queries_executed s' = []
          \<and> pending_queries s' = five_queries
          \<and> search_count s' = 0
          \<and> error_count s' = 1
          \<and> map errors (search_iterations s') = [[''timeout'']]"
    unfolding five_execute by (simp add: state_five_def example_state_def)
qed

text \<open>
  C1, amended. For a non-empty pending queue: if any search of the batch fails,
  \<open>parallel_search\<close> returns no result list. When it raises, \<open>execute_web_search\<close> catches
  the exception at the batch boundary: it adds one to \<open>error_count\<close> and appends one audit
  entry whose \<open>errors\<close> hold the message, and changes nothing else; the exception is the
  error of one of the failing searches. When it returns, there is one result per query,
  aligned by position, and the state gains one memory entry for every query with a non-empty
  result text. In both cases the node after the search is the analysis.
\<close>

theorem batch_failure_handling:
  assumes "pending_queries s \<noteq> []"
    and "batch = py_take (max_queries_per_depth cfg) (pending_queries s)"
    and "mc = (case max_concurrent_searches s of None \<Rightarrow> 5 | Some c \<Rightarrow> c)"
    and "outcome = parallel_search (openai_web_search env t) batch mc (completion_order env t)"
  shows "((\<exists>i < length batch. \<exists>e. openai_web_search env t i (batch ! i) = Inl e) \<longrightarrow>
            (\<forall>results. outcome \<noteq> Returns results))
       \<and> (\<forall>e. outcome = Raises e \<longrightarrow>
            execute_web_search cfg env t s =
              Returns (s\<lparr>error_count := error_count s + 1,
                         search_iterations := search_iterations s @
                           [\<lparr>goal = current_depth s, queries = batch,
                             model_used = web_search_model cfg, new_entities = [],
                             sources_found = 0, iteration_sources = None,
                             errors = [str_of e]\<rparr>]\<rparr>))
       \<and> (\<forall>e. outcome = Raises e \<and> 0 \<le> mc \<longrightarrow>
            (\<exists>i < length batch. openai_web_search env t i (batch ! i) = Inl e))
       \<and> (\<forall>results. outcome = Returns results \<longrightarrow>
            length results = length batch
            \<and> (\<forall>i < length batch. openai_web_search env t i (batch ! i) = Inr (results ! i))
            \<and> (\<exists>s'. execute_web_search cfg env t s = Returns s'
                  \<and> search_memory s' =
                      search_memory s @ memory_entries (current_depth s) (zip batch results)
                  \<and> queries_executed s' = queries_executed s @ batch
                  \<and> search_count s' = search_count s + int (length batch)
                  \<and> error_count s' = error_count s))
       \<and> (\<forall>s'. execute_web_search cfg env t s = Returns s' \<longrightarrow>
            next_node cfg N_execute_search s' = N_analyze_and_reflect)"
proof -
  have inv: "0 \<le> mc \<Longrightarrow>
     executor_inv (openai_web_search env t) batch (nat mc)
       (run_tasks (openai_web_search env t) batch (completion_order env t)
          (start_tasks (nat mc) (length batch)))"
    by (intro inv_run inv_start)
  have out: "0 \<le> mc \<Longrightarrow>
     outcome = gather (run_tasks (openai_web_search env t) batch (completion_order env t)
          (start_tasks (nat mc) (length batch)))"
    using assms(4) by (simp add: parallel_search_def)
  have neg: "mc < 0 \<Longrightarrow> \<exists>e. outcome = Raises e"
    using assms(4) by (simp add: parallel_search_def)
  have ret: "length results = length batch
            \<and> (\<forall>i < length batch. openai_web_search env t i (batch ! i) = Inr (results ! i))"
    if "outcome = Returns results" for results
  proof -
    from that neg have "0 \<le> mc" by (cases "mc < 0") auto
    with that inv out gather_returns show ?thesis by metis
  qed
  have p1: "(\<exists>i < length batch. \<exists>e. openai_web_search env t i (batch ! i) = Inl e) \<longrightarrow>
            (\<forall>results. outcome \<noteq> Returns results)"
    using ret by fastforce
  have p2: "execute_web_search cfg env t s =
              Returns (s\<lparr>error_count := error_count s + 1,
                         search_iterations := search_iterations s @
                           [\<lparr>goal = current_depth s, queries = batch,
                             model_used = web_search_model cfg, new_entities = [],
                             sources_found = 0, iteration_sources = None,
                             errors = [str_of e]\<rparr>]\<rparr>)"
    if "outcome = Raises e" for e
    using that assms(1) unfolding assms(4) assms(3) assms(2)
    by (simp add: execute_web_search_def Let_def)
  have p3: "\<exists>i < length batch. openai_web_search env t i (batch ! i) = Inl e"
    if "outcome = Raises e \<and> 0 \<le> mc" for e
    using that inv out gather_raises by metis
  have p4: "\<exists>s'. execute_web_search cfg env t s = Returns s'
                  \<and> search_memory s' =
                      search_memory s @ memory_entries (current_depth s) (zip batch results)
                  \<and> queries_executed s' = queries_executed s @ batch
                  \<and> search_count s' = search_count s + int (length batch)
                  \<and> error_count s' = error_count s"
    if r: "outcome = Returns results" for results
  proof -
    obtain found mem srcs where
      c: "collect_results (current_depth s) (zip batch results) (0, [], []) = (found, mem, srcs)"
      by (cases "collect_results (current_depth s) (zip batch results) (0, [], [])") auto
    from collect_memories [OF c] have mem: "mem = memory_entries (current_depth s) (zip batch results)"
      by simp
    from ret [OF r] have len: "length results = length batch" by simp
    have ps: "parallel_search (openai_web_search env t)
        (py_take (max_queries_per_depth cfg) (pending_queries s))
        (case max_concurrent_searches s of None \<Rightarrow> 5 | Some c \<Rightarrow> c)
        (completion_order env t) = Returns results"
      using r unfolding assms(4) assms(3) assms(2) .
    have c': "collect_results (current_depth s)
        (zip (py_take (max_queries_per_depth cfg) (pending_queries s)) results) (0, [], [])
        = (found, mem, srcs)"
      using c unfolding assms(2) .
    show ?thesis
      using assms(1) len mem
      unfolding assms(2)
      by (simp add: execute_web_search_def Let_def ps c')
  qed
  have p5: "\<forall>s'. execute_web_search cfg env t s = Returns s' \<longrightarrow>
            next_node cfg N_execute_search s' = N_analyze_and_reflect"
    by (simp add: next_node_def)
  from p1 p2 p3 ret p4 p5 show ?thesis by blast
qed

theorem batch_failure_handling_witness:
  "pending_queries state_five \<noteq> []
   \<and> parallel_search (openai_web_search env_query3_fails 2) five_queries 2
       (completion_order env_query3_fails 2) = Raises (Exception ''timeout'')
   \<and> execute_web_search example_settings env_query3_fails 2 state_five =
       Returns (state_five
         \<lparr>error_count := error_count state_five + 1,
          search_iterations := search_iterations state_five @
            [\<lparr>goal = current_depth state_five, queries = five_queries,
              model_used = web_search_model example_settings, new_entities = [],
              sources_found = 0, iteration_sources = None,
              errors = [str_of (Exception ''timeout'')]\<rparr>]\<rparr>)
   \<and> (\<exists>i < length five_queries.
         openai_web_search env_query3_fails 2 i (five_queries ! i) = Inl (Exception ''timeout''))"
proof -
  have h1: "pending_queries state_five \<noteq> []"
    by (simp add: state_five_def five_queries_def)
  have h2: "five_queries = py_take (max_queries_per_depth example_settings) (pending_queries state_five)"
    by (simp add: state_five_def five_batch)
  have h3: "(2::int) = (case max_concurrent_searches state_five of None \<Rightarrow> 5 | Some c \<Rightarrow> c)"
    by (simp add: state_five_def)
  note inst = batch_failure_handling [OF h1 h2 h3 refl, of env_query3_fails 2]
  from inst five_raises have a:
    "execute_web_search example_settings env_query3_fails 2 state_five =
       Returns (state_five
         \<lparr>error_count := error_count state_five + 1,
          search_iterations := search_iterations state_five @
            [\<lparr>goal = current_depth state_five, queries = five_queries,
              model_used = web_search_model example_settings, new_entities = [],
              sources_found = 0, iteration_sources = None,
              errors = [str_of (Exception ''timeout'')]\<rparr>]\<rparr>)"
    by blast
  have "(0::int) \<le> 2" by simp
  with inst five_raises have b:
    "\<exists>i < length five_queries.
         openai_web_search env_query3_fails 2 i (five_queries ! i) = Inl (Exception ''timeout'')"
    by blast
  from h1 five_raises a b show ?thesis by blast
qed

section \<open>Properties of the merges\<close>

lemma completed_keys:
  "(let g0 = (if empty_graph_dict g then \<lparr>nodes = Some [], edges = Some []\<rparr> else g);
        g1 = (case nodes g0 of None \<Rightarrow> g0\<lparr>nodes := Some []\<rparr> | Some _ \<Rightarrow> g0)
    in (case edges g1 of None \<Rightarrow> g1\<lparr>edges := Some []\<rparr> | Some _ \<Rightarrow> g1)) = with_graph_keys g"
  by (cases g; cases "nodes g"; cases "edges g")
     (simp_all add: with_graph_keys_def graph_nodes_def graph_edges_def empty_graph_dict_def)

lemma merge_graph_unfold:
  assumes "nodes_in \<noteq> [] \<or> edges_in \<noteq> []"
  shows "merge_graph_with_llm cfg merger existing nodes_in edges_in =
           (case retry_agent_execution (\<lambda>k. merger k (with_graph_keys existing) nodes_in edges_in)
                   (openai_max_retries cfg) of
              Inl e \<Rightarrow> Inl e
            | Inr out \<Rightarrow>
                Inr (if \<not> empty_graph_dict (merged_graph out) then merged_graph out
                     else with_graph_keys existing))"
proof -
  have "merge_graph_with_llm cfg merger existing nodes_in edges_in =
          (let g2 = (let g0 = (if empty_graph_dict existing then \<lparr>nodes = Some [], edges = Some []\<rparr> else existing);
                         g1 = (case nodes g0 of None \<Rightarrow> g0\<lparr>nodes := Some []\<rparr> | Some _ \<Rightarrow> g0)
                     in (case edges g1 of None \<Rightarrow> g1\<lparr>edges := Some []\<rparr> | Some _ \<Rightarrow> g1))
           in case retry_agent_execution (\<lambda>k. merger k g2 nodes_in edges_in)
                   (openai_max_retries cfg) of
              Inl e \<Rightarrow> Inl e
            | Inr out \<Rightarrow>
                Inr (if \<not> empty_graph_dict (merged_graph out) then merged_graph out else g2))"
    using assms by (auto simp: merge_graph_with_llm_def Let_def)
  then show ?thesis unfolding completed_keys by (simp add: Let_def)
qed

lemma acme_keys: "with_graph_keys acme_graph = acme_graph"
  by (simp add: with_graph_keys_def acme_graph_def graph_nodes_def graph_edges_def)

lemma dropping_example:
  "dropping_merger k acme_graph [] [dangling_edge] =
     Inr \<lparr>merged_graph = acme_graph, nodes_added = 0, edges_added = 0, nodes_merged = 0\<rparr>"
  by (simp add: dropping_merger_def acme_graph_def dangling_edge_def graph_nodes_def
      graph_edges_def Let_def)

lemma dropped_edge_merge:
  "merge_graph_with_llm example_settings dropping_merger acme_graph [] [dangling_edge] =
     Inr acme_graph"
proof -
  have "retry_agent_execution (\<lambda>k. dropping_merger k acme_graph [] [dangling_edge])
          (openai_max_retries example_settings) =
        Inr \<lparr>merged_graph = acme_graph, nodes_added = 0, edges_added = 0, nodes_merged = 0\<rparr>"
    by (rule retry_first) (simp_all add: dropping_example example_settings_def)
  moreover have "\<not> empty_graph_dict acme_graph"
    by (simp add: empty_graph_dict_def acme_graph_def)
  ultimately show ?thesis
    by (simp add: merge_graph_unfold acme_keys)
qed

text \<open>
  C8, as stated, fails. The merging agent decides: when it answers with a graph that leaves
  out an edge to a node that exists nowhere, \<open>merge_graph_with_llm\<close> returns that graph.
  Here the result is the existing graph, the same as for a call without the edge: no
  placeholder node, no edge, and nothing that records the rejection.
\<close>

theorem dangling_edge_dropped_silently:
  "merge_graph_with_llm example_settings dropping_merger acme_graph [] [dangling_edge] =
     Inr acme_graph
   \<and> merge_graph_with_llm example_settings dropping_merger acme_graph [] [] = Inr acme_graph
   \<and> target dangling_edge \<notin> set (map node_id (graph_nodes acme_graph))
   \<and> dangling_edge \<notin> set (graph_edges acme_graph)"
  using dropped_edge_merge
  by (simp add: merge_graph_with_llm_def acme_graph_def empty_graph_dict_def graph_nodes_def
      graph_edges_def dangling_edge_def)

text \<open>
  C8, amended. When there is something to merge and \<open>merge_graph_with_llm\<close> returns a
  graph, that graph is the \<open>merged_graph\<close> which one of the attempts of the merging agent
  answered, or the existing graph (with both keys set) when that answer is an empty
  dictionary. The merge itself checks no endpoint, adds no node and records nothing.
\<close>

theorem graph_merge_returns_collaborator_graph:
  assumes "nodes_in \<noteq> [] \<or> edges_in \<noteq> []"
    and "merge_graph_with_llm cfg merger existing nodes_in edges_in = Inr g'"
  shows "\<exists>k out. k < nat (openai_max_retries cfg)
           \<and> merger k (with_graph_keys existing) nodes_in edges_in = Inr out
           \<and> g' = (if empty_graph_dict (merged_graph out) then with_graph_keys existing
                   else merged_graph out)"
proof -
  from assms(2) obtain out where
    r: "retry_agent_execution (\<lambda>k. merger k (with_graph_keys existing) nodes_in edges_in)
          (openai_max_retries cfg) = Inr out"
    and g: "g' = (if empty_graph_dict (merged_graph out) then with_graph_keys existing
                   else merged_graph out)"
    unfolding merge_graph_unfold [OF assms(1)] by (auto split: sum.splits)
  from retry_success [OF r] obtain k where "k < nat (openai_max_retries cfg)"
    "merger k (with_graph_keys existing) nodes_in edges_in = Inr out" by blast
  with g show ?thesis by blast
qed

theorem graph_merge_returns_collaborator_graph_witness:
  "[dangling_edge] \<noteq> []
   \<and> merge_graph_with_llm example_settings dropping_merger acme_graph [] [dangling_edge] =
       Inr acme_graph
   \<and> (\<exists>k out. k < nat (openai_max_retries example_settings)
         \<and> dropping_merger k (with_graph_keys acme_graph) [] [dangling_edge] = Inr out
         \<and> acme_graph = (if empty_graph_dict (merged_graph out) then with_graph_keys acme_graph
                          else merged_graph out))"
proof -
  have h: "[] \<noteq> ([]::graph_node list) \<or> [dangling_edge] \<noteq> []" by simp
  have e: "[dangling_edge] \<noteq> []" by simp
  from graph_merge_returns_collaborator_graph [OF h dropped_edge_merge] e dropped_edge_merge
  show ?thesis by blast
qed

lemma merge_entities_unfold:
  assumes "text \<noteq> []"
  shows "merge_entities_with_llm cfg merger existing text =
           (case retry_agent_execution (\<lambda>k. merger k existing text) (openai_max_retries cfg) of
              Inl e \<Rightarrow> Inl e
            | Inr out \<Rightarrow>
                Inr (if merged_entities out \<noteq> [] then merged_entities out else existing))"
  using assms by (simp add: merge_entities_with_llm_def)

lemma counting_first:
  "merge_entities_with_llm example_settings counting_merger [] ''Acme Ltd'' =
     Inr [(''Acme Ltd'', AnyInt 1)]"
proof -
  have "retry_agent_execution (\<lambda>k. counting_merger k [] ''Acme Ltd'')
          (openai_max_retries example_settings) =
        Inr \<lparr>merged_entities = [(''Acme Ltd'', AnyInt 1)], entities_extracted = [''Acme Ltd'']\<rparr>"
    by (rule retry_first) (simp_all add: counting_merger_def mentions_of_def example_settings_def)
  then show ?thesis by (simp add: merge_entities_unfold)
qed

lemma counting_second:
  "merge_entities_with_llm example_settings counting_merger [(''Acme Ltd'', AnyInt 1)] ''Acme Ltd'' =
     Inr [(''Acme Ltd'', AnyInt 2)]"
proof -
  have "retry_agent_execution (\<lambda>k. counting_merger k [(''Acme Ltd'', AnyInt 1)] ''Acme Ltd'')
          (openai_max_retries example_settings) =
        Inr \<lparr>merged_entities = [(''Acme Ltd'', AnyInt 2)], entities_extracted = [''Acme Ltd'']\<rparr>"
    by (rule retry_first) (simp_all add: counting_merger_def mentions_of_def example_settings_def)
  then show ?thesis by (simp add: merge_entities_unfold)
qed

lemma constant_merger_once:
  "retry_agent_execution (\<lambda>k. entity_merger example_env 3 k existing ''Acme Ltd'')
     (openai_max_retries example_settings) =
   Inr \<lparr>merged_entities = acme_once, entities_extracted = [''Acme Ltd'']\<rparr>"
  by (rule retry_first) (simp_all add: example_env_def acme_once_def example_settings_def)

text \<open>
  C9, as stated, fails. With a merging agent that counts a mention each time it sees the
  entity, merging the same text a second time changes the mapping: the count goes from 1 to 2.
\<close>

theorem entity_merge_not_idempotent:
  "merge_entities_with_llm example_settings counting_merger [] ''Acme Ltd'' =
     Inr [(''Acme Ltd'', AnyInt 1)]
   \<and> merge_entities_with_llm example_settings counting_merger [(''Acme Ltd'', AnyInt 1)]
       ''Acme Ltd'' = Inr [(''Acme Ltd'', AnyInt 2)]
   \<and> \<not> (\<forall>merger existing text once.
           merge_entities_with_llm example_settings merger existing text = Inr once \<longrightarrow>
           merge_entities_with_llm example_settings merger once text = Inr once)"
proof (intro conjI)
  show "\<not> (\<forall>merger existing text once.
           merge_entities_with_llm example_settings merger existing text = Inr once \<longrightarrow>
           merge_entities_with_llm example_settings merger once text = Inr once)"
  proof
    assume "\<forall>merger existing text once.
           merge_entities_with_llm example_settings merger existing text = Inr once \<longrightarrow>
           merge_entities_with_llm example_settings merger once text = Inr once"
    with counting_first have
      "merge_entities_with_llm example_settings counting_merger [(''Acme Ltd'', AnyInt 1)]
         ''Acme Ltd'' = Inr [(''Acme Ltd'', AnyInt 1)]"
      by blast
    with counting_second show False by simp
  qed
qed (rule counting_first counting_second)+

text \<open>
  C9, amended. With an empty analysis text the merge returns the existing mapping. With a
  non-empty text the result is the \<open>merged_entities\<close> which one of the attempts of the
  merging agent answered (the existing mapping when that is empty); and merging the same text
  into the result once more gives the same mapping exactly when the agent then answers with
  an empty mapping or with that same mapping.
\<close>

theorem entity_merge_repeated:
  "merge_entities_with_llm cfg merger existing [] = Inr existing
   \<and> (text \<noteq> [] \<and> merge_entities_with_llm cfg merger existing text = Inr once \<longrightarrow>
        (\<exists>k out. k < nat (openai_max_retries cfg)
           \<and> merger k existing text = Inr out
           \<and> once = (if merged_entities out \<noteq> [] then merged_entities out else existing)))
   \<and> (text \<noteq> [] \<longrightarrow>
        (merge_entities_with_llm cfg merger once text = Inr once) =
        (\<exists>out. retry_agent_execution (\<lambda>k. merger k once text) (openai_max_retries cfg) = Inr out
           \<and> (merged_entities out = [] \<or> merged_entities out = once)))"
proof (intro conjI impI)
  show "merge_entities_with_llm cfg merger existing [] = Inr existing"
    by (simp add: merge_entities_with_llm_def)
next
  assume a: "text \<noteq> [] \<and> merge_entities_with_llm cfg merger existing text = Inr once"
  then obtain out where
    r: "retry_agent_execution (\<lambda>k. merger k existing text) (openai_max_retries cfg) = Inr out"
    and o: "once = (if merged_entities out \<noteq> [] then merged_entities out else existing)"
    by (auto simp: merge_entities_unfold split: sum.splits)
  from retry_success [OF r] o
  show "\<exists>k out. k < nat (openai_max_retries cfg)
           \<and> merger k existing text = Inr out
           \<and> once = (if merged_entities out \<noteq> [] then merged_entities out else existing)"
    by blast
next
  assume t: "text \<noteq> []"
  show "(merge_entities_with_llm cfg merger once text = Inr once) =
        (\<exists>out. retry_agent_execution (\<lambda>k. merger k once text) (openai_max_retries cfg) = Inr out
           \<and> (merged_entities out = [] \<or> merged_entities out = once))"
    unfolding merge_entities_unfold [OF t]
    by (cases "retry_agent_execution (\<lambda>k. merger k once text) (openai_max_retries cfg)") auto
qed

theorem entity_merge_repeated_witness:
  "''Acme Ltd'' \<noteq> []
   \<and> merge_entities_with_llm example_settings (entity_merger example_env 3) [] ''Acme Ltd'' =
       Inr acme_once
   \<and> merge_entities_with_llm example_settings (entity_merger example_env 3) acme_once
       ''Acme Ltd'' = Inr acme_once
   \<and> merge_entities_with_llm example_settings (entity_merger example_env 3) acme_once [] =
       Inr acme_once"
proof -
  note inst = entity_merge_repeated [of example_settings "entity_merger example_env 3" acme_once
      "''Acme Ltd''" acme_once]
  have t: "''Acme Ltd'' \<noteq> []" by simp
  have first: "merge_entities_with_llm example_settings (entity_merger example_env 3) []
                 ''Acme Ltd'' = Inr acme_once"
    using constant_merger_once [of "[]"] by (simp add: merge_entities_unfold acme_once_def)
  have "\<exists>out. retry_agent_execution (\<lambda>k. entity_merger example_env 3 k acme_once ''Acme Ltd'')
                 (openai_max_retries example_settings) = Inr out
              \<and> (merged_entities out = [] \<or> merged_entities out = acme_once)"
    using constant_merger_once [of acme_once] by simp
  with inst t have second:
    "merge_entities_with_llm example_settings (entity_merger example_env 3) acme_once
       ''Acme Ltd'' = Inr acme_once"
    by blast
  from inst have third:
    "merge_entities_with_llm example_settings (entity_merger example_env 3) acme_once [] =
       Inr acme_once"
    by blast
  from t first second third show ?thesis by blast
qed

end
